theory Spec2Isabelle
  imports Complex_Main "HOL-Library.Word"
begin

section \<open>Conventions of the embedding\<close>

text \<open>
  The development embeds the danger grid of AU\_UAV\_ROS: the grid class \<open>map\<close>
  (map\_fixed.h), the class \<open>danger_grid\<close> (danger\_grid.h, the variant with the
  owner's \<open>plane_id\<close>) and the two sizing helpers of \<open>map_tools\<close>.

  \<^item> A C++ \<open>double\<close> is a HOL \<open>real\<close>: rounding is not modelled, so \<open>sqrt\<close>, \<open>asin\<close>
    and the four operations are the exact ones. Where the rounding of the machine
    decides a comparison or a conversion, the model follows the exact value: the angle
    towards a point on an exact diagonal is 45 degrees here, where the \<open>double\<close>s give
    a value just below it, and the quotient of 0.3 by 0.1 is 3.
  \<^item> A C++ \<open>int\<close> that holds a grid coordinate is a HOL \<open>int\<close>; the code never
    leaves the range of a 32-bit \<open>int\<close> on coordinates of a real grid, and signed
    overflow would be undefined behaviour of the source.
  \<^item> An \<open>unsigned int\<close> (the source's \<open>natural\<close>) that the code computes with
    is a \<open>32 word\<close>, so that \<open>x - 1\<close> at \<open>x = 0\<close> wraps as it does in C++.
  \<^item> A \<open>std::vector\<close> is a list; an access out of range, which the source leaves
    undefined, is the value \<open>None\<close> of the operation that makes it.
\<close>

subsection \<open>Constants\<close>

definition EPSILON :: real where
  "EPSILON = 1 / 1000000"

definition look_ahead :: nat where
  "look_ahead = 20"

definition look_behind :: nat where
  "look_behind = 2"

text \<open>The danger space holds \<open>look_ahead + look_behind + 1\<close> maps.\<close>

definition slice_count :: nat where
  "slice_count = look_ahead + look_behind + 1"

definition field_weight :: real where
  "field_weight = 7 / 10"

definition RADtoDEGREES :: real where
  "RADtoDEGREES = 180 / pi"

subsection \<open>Estimates\<close>

text \<open>
  The struct \<open>estimate\<close> of estimate.h: a triple \<open>(x, y, danger)\<close>. The fields carry
  the prefix \<open>est_\<close>. The divider between two seconds is \<open>estimate(0, 0, -1)\<close>.
\<close>

record estimate =
  est_x :: int
  est_y :: int
  est_danger :: real

abbreviation estimate_of :: "int \<Rightarrow> int \<Rightarrow> real \<Rightarrow> estimate" where
  "estimate_of px py d \<equiv> \<lparr>est_x = px, est_y = py, est_danger = d\<rparr>"

definition time_marker :: estimate where
  "time_marker = estimate_of 0 0 (- 1)"

section \<open>The trajectory projector\<close>

subsection \<open>The angle to the waypoint\<close>

text \<open>
  The block ``find the angle to the waypoint'' that \<open>calculate_future_pos\<close> and
  \<open>dangerRecurse\<close> both contain, from \<open>(x1, y1)\<close> to \<open>(x2, y2)\<close>.
\<close>

definition xDistance_of :: "int \<Rightarrow> int \<Rightarrow> real" where
  "xDistance_of x1 x2 = \<bar>real_of_int x2 - real_of_int x1\<bar>"

definition angle_to_waypoint :: "int \<Rightarrow> int \<Rightarrow> int \<Rightarrow> int \<Rightarrow> real" where
  "angle_to_waypoint x1 y1 x2 y2 =
     (let xDistance = xDistance_of x1 x2;
          yDistance = xDistance_of y1 y2;
          distance = sqrt (xDistance * xDistance + yDistance * yDistance);
          angle = (if y2 < y1 then RADtoDEGREES * arcsin (xDistance / distance)
                   else 180 - RADtoDEGREES * arcsin (xDistance / distance))
      in if x2 - x1 < 0 then (- 1) * angle else angle)"

text \<open>
  \<open>neighoboringAngles\<close> writes its two out parameters only inside a sector test; for
  an angle outside \<open>[-180, 180]\<close> they keep the values they had, which is the pair
  passed in here.
\<close>

definition neighoboringAngles :: "real \<Rightarrow> real \<times> real \<Rightarrow> real \<times> real" where
  "neighoboringAngles angle old =
     (if angle > 0 then
        (if angle < 45 then (0, 45)
         else if angle < 90 then (45, 90)
         else if angle < 135 then (90, 135)
         else if angle \<le> 180 then (135, 180)
         else old)
      else
        (if angle > - 45 then (0, - 45)
         else if angle > - 90 then (- 45, - 90)
         else if angle > - 135 then (- 90, - 135)
         else if angle \<ge> - 180 then (- 135, - 180)
         else old))"

text \<open>The block ``find closest straight line'': the pair \<open>(closestAngle, otherAngle)\<close>.\<close>

definition closest_and_other :: "real \<Rightarrow> real \<times> real \<Rightarrow> real \<times> real" where
  "closest_and_other angle neighbors =
     (if \<bar>angle - fst neighbors\<bar> \<ge> \<bar>angle - snd neighbors\<bar>
      then (snd neighbors, fst neighbors)
      else (fst neighbors, snd neighbors))"

text \<open>The block ``find displacement percentage''.\<close>

definition displacement :: "real \<Rightarrow> real \<Rightarrow> real \<Rightarrow> real" where
  "displacement angle closestAngle otherAngle =
     (if \<bar>angle\<bar> > \<bar>closestAngle\<bar> \<and> closestAngle \<noteq> 0 then closestAngle / angle
      else if closestAngle \<noteq> 0 then angle / closestAngle
      else 1 - angle / otherAngle)"

subsection \<open>placeDanger\<close>

definition dangerCeiling :: real where
  "dangerCeiling = 4 / 10"

text \<open>
  The first four statements of \<open>placeDanger\<close>: the remainder \<open>1 - danger\<close> is taken
  before either value is cut at the ceiling.
\<close>

definition mass_split :: "real \<Rightarrow> real \<times> real" where
  "mass_split d = (d, 1 - d)"

definition ceiling_clamp :: "real \<Rightarrow> real" where
  "ceiling_clamp d = (if d \<ge> dangerCeiling then dangerCeiling else d)"

definition placeDanger ::
  "real \<Rightarrow> estimate list \<Rightarrow> real \<Rightarrow> real \<Rightarrow> int \<Rightarrow> int \<Rightarrow> real \<Rightarrow> estimate list" where
  "placeDanger angle e closest other px py d =
     (let remainingDanger = ceiling_clamp (snd (mass_split d));
          danger = ceiling_clamp (fst (mass_split d))
      in if angle > 0 then
           (if closest = 0 then
              e @ [estimate_of px (py - 1) danger, estimate_of (px + 1) (py - 1) remainingDanger]
            else if closest = 45 \<and> other = 0 then
              e @ [estimate_of (px + 1) (py - 1) danger, estimate_of px (py - 1) remainingDanger]
            else if closest = 45 then
              e @ [estimate_of (px + 1) (py - 1) danger, estimate_of (px + 1) py remainingDanger]
            else if closest = 90 \<and> other = 45 then
              e @ [estimate_of (px + 1) py danger, estimate_of (px + 1) (py - 1) remainingDanger]
            else if closest = 90 then
              e @ [estimate_of (px + 1) py danger, estimate_of (px + 1) (py + 1) remainingDanger]
            else if closest = 135 \<and> other = 90 then
              e @ [estimate_of (px + 1) (py + 1) danger, estimate_of (px + 1) py remainingDanger]
            else if closest = 135 then
              e @ [estimate_of (px + 1) (py + 1) danger, estimate_of px (py + 1) remainingDanger]
            else
              e @ [estimate_of px (py + 1) danger, estimate_of (px + 1) (py + 1) remainingDanger])
         else
           (if closest = 0 then
              e @ [estimate_of px (py - 1) danger, estimate_of (px - 1) (py - 1) remainingDanger]
            else if closest = - 45 \<and> other = 0 then
              e @ [estimate_of (px - 1) (py - 1) danger, estimate_of px (py - 1) remainingDanger]
            else if closest = - 45 then
              e @ [estimate_of (px - 1) (py - 1) danger, estimate_of (px - 1) py remainingDanger]
            else if closest = - 90 \<and> other = - 45 then
              e @ [estimate_of (px - 1) py danger, estimate_of (px - 1) (py - 1) remainingDanger]
            else if closest = - 90 then
              e @ [estimate_of (px - 1) py danger, estimate_of (px - 1) (py + 1) remainingDanger]
            else if closest = - 135 \<and> other = - 90 then
              e @ [estimate_of (px - 1) (py + 1) danger, estimate_of (px - 1) py remainingDanger]
            else if closest = - 135 then
              e @ [estimate_of (px - 1) (py + 1) danger, estimate_of px (py + 1) remainingDanger]
            else
              e @ [estimate_of px (py + 1) danger, estimate_of (px - 1) (py + 1) remainingDanger]))"

text \<open>
  One projection step from \<open>(x1, y1)\<close> towards \<open>(x2, y2)\<close>: the code between the
  distance test and the push of the time marker, common to \<open>calculate_future_pos\<close>
  and \<open>dangerRecurse\<close>. The array \<open>neighbors\<close> is uninitialised there; the angle lies
  in \<open>[-180, 180]\<close>, so \<open>neighoboringAngles\<close> overwrites whatever it held.
\<close>

definition step_displacement :: "int \<Rightarrow> int \<Rightarrow> int \<Rightarrow> int \<Rightarrow> real" where
  "step_displacement x1 y1 x2 y2 =
     (let angle = angle_to_waypoint x1 y1 x2 y2;
          co = closest_and_other angle (neighoboringAngles angle (0, 0))
      in displacement angle (fst co) (snd co))"

definition project_step :: "estimate list \<Rightarrow> int \<Rightarrow> int \<Rightarrow> int \<Rightarrow> int \<Rightarrow> estimate list" where
  "project_step theFuture x1 y1 x2 y2 =
     (let angle = angle_to_waypoint x1 y1 x2 y2;
          co = closest_and_other angle (neighoboringAngles angle (0, 0))
      in placeDanger angle theFuture (fst co) (snd co) x1 y1 (step_displacement x1 y1 x2 y2))"

lemma closest_cases:
  assumes "- 180 \<le> a" "a \<le> 180"
  shows "closest_and_other a (neighoboringAngles a old) =
    (if a > 0 then
       (if a < 45/2 then (0, 45) else if a < 45 then (45, 0)
        else if a < 135/2 then (45, 90) else if a < 90 then (90, 45)
        else if a < 225/2 then (90, 135) else if a < 135 then (135, 90)
        else if a < 315/2 then (135, 180) else (180, 135))
     else
       (if a > - 45/2 then (0, - 45) else if a > - 45 then (- 45, 0)
        else if a > - 135/2 then (- 45, - 90) else if a > - 90 then (- 90, - 45)
        else if a > - 225/2 then (- 90, - 135) else if a > - 135 then (- 135, - 90)
        else if a > - 315/2 then (- 135, - 180) else (- 180, - 135)))"
  using assms unfolding closest_and_other_def neighoboringAngles_def
  by (auto simp: abs_if)

lemma displacement_range:
  assumes "- 180 \<le> a" "a \<le> 180"
  shows "1/2 \<le> displacement a (fst (closest_and_other a (neighoboringAngles a old)))
                                (snd (closest_and_other a (neighoboringAngles a old)))
       \<and> displacement a (fst (closest_and_other a (neighoboringAngles a old)))
                                (snd (closest_and_other a (neighoboringAngles a old))) \<le> 1"
  unfolding closest_cases[OF assms] displacement_def using assms
  by (auto simp: abs_if field_simps)

lemma placeDanger_append:
  "\<exists>c1 c2. placeDanger angle e c ot px py d =
     e @ [estimate_of (fst c1) (snd c1) (ceiling_clamp d),
          estimate_of (fst c2) (snd c2) (ceiling_clamp (1 - d))]"
  by (simp add: placeDanger_def Let_def mass_split_def)

lemma ratio_bounds:
  fixes a b :: real
  assumes "0 \<le> a" "0 \<le> b" "a \<noteq> 0 \<or> b \<noteq> 0"
  shows "0 \<le> a / sqrt (a * a + b * b)" "a / sqrt (a * a + b * b) \<le> 1"
    "a / sqrt (a * a + b * b) = 0 \<longleftrightarrow> a = 0"
    "a / sqrt (a * a + b * b) = 1 \<longleftrightarrow> b = 0"
proof -
  have pos: "0 < a * a + b * b"
    using assms by (metis add_pos_nonneg add_nonneg_pos mult_nonneg_nonneg not_real_square_gt_zero zero_le_mult_iff less_eq_real_def)
  then have sp: "0 < sqrt (a * a + b * b)" by simp
  show "0 \<le> a / sqrt (a * a + b * b)" using assms sp by simp
  have "a * a \<le> a * a + b * b" by simp
  then have "sqrt (a * a) \<le> sqrt (a * a + b * b)" using real_sqrt_le_mono by blast
  then have le: "a \<le> sqrt (a * a + b * b)" using assms by simp
  then show "a / sqrt (a * a + b * b) \<le> 1" using sp by simp
  show "a / sqrt (a * a + b * b) = 0 \<longleftrightarrow> a = 0" using sp by auto
  have "a / sqrt (a * a + b * b) = 1 \<longleftrightarrow> a = sqrt (a * a + b * b)" using sp by auto
  also have "\<dots> \<longleftrightarrow> a * a = a * a + b * b"
  proof
    assume "a = sqrt (a * a + b * b)"
    then have "a * a = sqrt (a * a + b * b) * sqrt (a * a + b * b)" by simp
    then show "a * a = a * a + b * b" using pos by simp
  next
    assume h: "a * a = a * a + b * b"
    have "sqrt (a * a) = a" using assms by simp
    then show "a = sqrt (a * a + b * b)" using h by simp
  qed
  also have "\<dots> \<longleftrightarrow> b = 0" by simp
  finally show "a / sqrt (a * a + b * b) = 1 \<longleftrightarrow> b = 0" .
qed

lemma deg_arcsin_bounds:
  fixes s :: real
  assumes "0 \<le> s" "s \<le> 1"
  shows "0 \<le> RADtoDEGREES * arcsin s" "RADtoDEGREES * arcsin s \<le> 90"
    "RADtoDEGREES * arcsin s = 0 \<longleftrightarrow> s = 0"
    "RADtoDEGREES * arcsin s = 90 \<longleftrightarrow> s = 1"
proof -
  have a0: "0 \<le> arcsin s" using assms by (simp add: arcsin_nonneg)
  have a1: "arcsin s \<le> pi / 2" using assms arcsin_ubound[of s] by linarith
  show "0 \<le> RADtoDEGREES * arcsin s" using a0 by (simp add: RADtoDEGREES_def)
  have "180 / pi * arcsin s \<le> 180 / pi * (pi / 2)"
    by (rule mult_left_mono[OF a1]) simp
  then show "RADtoDEGREES * arcsin s \<le> 90" by (simp add: RADtoDEGREES_def)
  have "arcsin s = 0 \<longleftrightarrow> s = 0"
    using arcsin_eq_iff[of s 0] assms by simp
  then show "RADtoDEGREES * arcsin s = 0 \<longleftrightarrow> s = 0" by (simp add: RADtoDEGREES_def)
  have "arcsin s = pi / 2 \<longleftrightarrow> s = 1"
    using arcsin_eq_iff[of s 1] assms by simp
  then show "RADtoDEGREES * arcsin s = 90 \<longleftrightarrow> s = 1"
    by (simp add: RADtoDEGREES_def field_simps)
qed


lemma angle_shape:
  assumes nd: "x1 \<noteq> x2 \<or> y1 \<noteq> y2"
  obtains A where "0 \<le> A" "A \<le> 90" "A = 0 \<longleftrightarrow> x1 = x2" "A = 90 \<longleftrightarrow> y1 = y2"
    "angle_to_waypoint x1 y1 x2 y2 =
       (if x2 - x1 < 0 then - 1 else 1) * (if y2 < y1 then A else 180 - A)"
proof -
  define a where "a = xDistance_of x1 x2"
  define b where "b = xDistance_of y1 y2"
  define A where "A = RADtoDEGREES * arcsin (a / sqrt (a * a + b * b))"
  have a0: "0 \<le> a" and b0: "0 \<le> b" by (simp_all add: a_def b_def xDistance_of_def)
  have az: "a = 0 \<longleftrightarrow> x1 = x2" and bz: "b = 0 \<longleftrightarrow> y1 = y2"
    by (auto simp: a_def b_def xDistance_of_def)
  have nz: "a \<noteq> 0 \<or> b \<noteq> 0" using nd az bz by blast
  note rb = ratio_bounds[OF a0 b0 nz]
  note db = deg_arcsin_bounds[OF rb(1) rb(2)]
  have 1: "0 \<le> A" "A \<le> 90" using db(1,2) by (simp_all add: A_def)
  have 2: "A = 0 \<longleftrightarrow> x1 = x2" using db(3) rb(3) az by (simp add: A_def)
  have 3: "A = 90 \<longleftrightarrow> y1 = y2" using db(4) rb(4) bz by (simp add: A_def)
  have 4: "angle_to_waypoint x1 y1 x2 y2 =
       (if x2 - x1 < 0 then - 1 else 1) * (if y2 < y1 then A else 180 - A)"
    by (simp add: angle_to_waypoint_def Let_def A_def a_def b_def)
  show thesis using that[OF 1 2 3 4] .
qed

lemma angle_facts:
  assumes nd: "x1 \<noteq> x2 \<or> y1 \<noteq> y2"
  defines "ang \<equiv> angle_to_waypoint x1 y1 x2 y2"
  shows "- 180 < ang" "ang \<le> 180"
    "\<bar>ang\<bar> < 90 \<Longrightarrow> y2 < y1"
    "\<bar>ang\<bar> > 90 \<Longrightarrow> y1 < y2"
    "0 < ang \<Longrightarrow> ang < 180 \<Longrightarrow> x1 < x2"
    "ang < 0 \<Longrightarrow> x2 < x1"
proof -
  obtain A where A: "0 \<le> A" "A \<le> 90" "A = 0 \<longleftrightarrow> x1 = x2" "A = 90 \<longleftrightarrow> y1 = y2"
    "ang = (if x2 - x1 < 0 then - 1 else 1) * (if y2 < y1 then A else 180 - A)"
    unfolding ang_def using angle_shape[OF nd] by blast
  show "- 180 < ang" using A by (auto split: if_splits)
  show "ang \<le> 180" using A by (auto split: if_splits)
  show "\<bar>ang\<bar> < 90 \<Longrightarrow> y2 < y1" using A by (auto split: if_splits)
  show "\<bar>ang\<bar> > 90 \<Longrightarrow> y1 < y2" using A by (auto split: if_splits)
  show "0 < ang \<Longrightarrow> ang < 180 \<Longrightarrow> x1 < x2" using A by (auto split: if_splits)
  show "ang < 0 \<Longrightarrow> x2 < x1" using A by (auto split: if_splits)
qed


lemma placeDanger_first_cell:
  "(est_x (placeDanger angle e c ot px py d ! length e),
    est_y (placeDanger angle e c ot px py d ! length e)) =
   (if angle > 0 then
      (if c = 0 then (px, py - 1) else if c = 45 then (px + 1, py - 1)
       else if c = 90 then (px + 1, py) else if c = 135 then (px + 1, py + 1)
       else (px, py + 1))
    else
      (if c = 0 then (px, py - 1) else if c = - 45 then (px - 1, py - 1)
       else if c = - 90 then (px - 1, py) else if c = - 135 then (px - 1, py + 1)
       else (px, py + 1)))"
  by (simp add: placeDanger_def Let_def)

lemma first_cell_sector:
  fixes fut :: "estimate list"
  assumes nd: "x1 \<noteq> x2 \<or> y1 \<noteq> y2"
  defines "ang \<equiv> angle_to_waypoint x1 y1 x2 y2"
  defines "e1 \<equiv> project_step fut x1 y1 x2 y2 ! length fut"
  shows "(est_x e1, est_y e1) =
   (if ang > 0 then
      (if ang < 45/2 then (x1, y1 - 1) else if ang < 135/2 then (x1 + 1, y1 - 1)
       else if ang < 225/2 then (x1 + 1, y1) else if ang < 315/2 then (x1 + 1, y1 + 1)
       else (x1, y1 + 1))
    else
      (if ang > - 45/2 then (x1, y1 - 1) else if ang > - 135/2 then (x1 - 1, y1 - 1)
       else if ang > - 225/2 then (x1 - 1, y1) else if ang > - 315/2 then (x1 - 1, y1 + 1)
       else (x1, y1 + 1)))"
proof -
  note af = angle_facts[OF nd, folded ang_def]
  have r: "- 180 \<le> ang" "ang \<le> 180" using af(1,2) by simp_all
  show ?thesis
    unfolding e1_def project_step_def Let_def ang_def[symmetric] placeDanger_first_cell
      closest_cases[OF r]
    by simp
qed

lemma first_cell_closer:
  assumes nd: "x1 \<noteq> x2 \<or> y1 \<noteq> y2"
  shows "\<bar>x2 - est_x (project_step fut x1 y1 x2 y2 ! length fut)\<bar>
       + \<bar>y2 - est_y (project_step fut x1 y1 x2 y2 ! length fut)\<bar>
       < \<bar>x2 - x1\<bar> + \<bar>y2 - y1\<bar>"
proof -
  define ang where "ang = angle_to_waypoint x1 y1 x2 y2"
  define e1 where "e1 = project_step fut x1 y1 x2 y2 ! length fut"
  note af = angle_facts[OF nd, folded ang_def]
  note cell = first_cell_sector[OF nd, of fut, folded ang_def e1_def]
  have N: "\<bar>ang\<bar> < 45/2 \<Longrightarrow> y2 < y1 \<and> est_x e1 = x1 \<and> est_y e1 = y1 - 1"
    using cell af(3) by (auto split: if_splits)
  have S: "\<bar>ang\<bar> \<ge> 315/2 \<Longrightarrow> y1 < y2 \<and> est_x e1 = x1 \<and> est_y e1 = y1 + 1"
    using cell af(4) by (auto split: if_splits)
  have NE: "45/2 \<le> ang \<Longrightarrow> ang < 135/2 \<Longrightarrow> y2 < y1 \<and> x1 < x2 \<and> est_x e1 = x1 + 1 \<and> est_y e1 = y1 - 1"
    using cell af(3,5) by (auto split: if_splits)
  have E: "135/2 \<le> ang \<Longrightarrow> ang < 225/2 \<Longrightarrow> x1 < x2 \<and> est_x e1 = x1 + 1 \<and> est_y e1 = y1"
    using cell af(5) by (auto split: if_splits)
  have SE: "225/2 \<le> ang \<Longrightarrow> ang < 315/2 \<Longrightarrow> y1 < y2 \<and> x1 < x2 \<and> est_x e1 = x1 + 1 \<and> est_y e1 = y1 + 1"
    using cell af(4,5) by (auto split: if_splits)
  have NW: "ang \<le> - 45/2 \<Longrightarrow> - 135/2 < ang \<Longrightarrow> y2 < y1 \<and> x2 < x1 \<and> est_x e1 = x1 - 1 \<and> est_y e1 = y1 - 1"
    using cell af(3,6) by (auto split: if_splits)
  have W: "ang \<le> - 135/2 \<Longrightarrow> - 225/2 < ang \<Longrightarrow> x2 < x1 \<and> est_x e1 = x1 - 1 \<and> est_y e1 = y1"
    using cell af(6) by (auto split: if_splits)
  have SW: "ang \<le> - 225/2 \<Longrightarrow> - 315/2 < ang \<Longrightarrow> y1 < y2 \<and> x2 < x1 \<and> est_x e1 = x1 - 1 \<and> est_y e1 = y1 + 1"
    using cell af(4,6) by (auto split: if_splits)
  consider "\<bar>ang\<bar> < 45/2" | "\<bar>ang\<bar> \<ge> 315/2" | "45/2 \<le> ang \<and> ang < 135/2"
    | "135/2 \<le> ang \<and> ang < 225/2" | "225/2 \<le> ang \<and> ang < 315/2"
    | "ang \<le> - 45/2 \<and> - 135/2 < ang" | "ang \<le> - 135/2 \<and> - 225/2 < ang"
    | "ang \<le> - 225/2 \<and> - 315/2 < ang"
    by linarith
  then have "\<bar>x2 - est_x e1\<bar> + \<bar>y2 - est_y e1\<bar> < \<bar>x2 - x1\<bar> + \<bar>y2 - y1\<bar>"
  proof cases
    case 1 then show ?thesis using N by simp
  next
    case 2 then show ?thesis using S by simp
  next
    case 3 then show ?thesis using NE by simp
  next
    case 4 then show ?thesis using E by simp
  next
    case 5 then show ?thesis using SE by simp
  next
    case 6 then show ?thesis using NW by simp
  next
    case 7 then show ?thesis using W by simp
  next
    case 8 then show ?thesis using SW by simp
  qed
  then show ?thesis by (simp add: e1_def)
qed


lemma project_step_length: "length (project_step fut x1 y1 x2 y2) = length fut + 2"
proof -
  obtain c1 c2 d a c ot where "project_step fut x1 y1 x2 y2 =
     fut @ [estimate_of (fst c1) (snd c1) (ceiling_clamp d),
          estimate_of (fst c2) (snd c2) (ceiling_clamp (1 - d))]"
    unfolding project_step_def Let_def using placeDanger_append by blast
  then show ?thesis by simp
qed

function dangerRecurse ::
  "estimate \<Rightarrow> int \<times> int \<Rightarrow> estimate list \<Rightarrow> int \<Rightarrow> estimate list \<times> int" where
  "dangerRecurse e destination theFuture time =
     (let x1 = est_x e; y1 = est_y e; x2 = fst destination; y2 = snd destination in
      if xDistance_of x1 x2 = 0 \<and> xDistance_of y1 y2 = 0 then (theFuture, time)
      else
        let placed = project_step theFuture x1 y1 x2 y2;
            nextPos = int (length placed) - 2;
            pushed = placed @ [time_marker]
        in if est_danger (pushed ! nat (nextPos + 2)) > 3 / 10
           then dangerRecurse (pushed ! nat (nextPos + 2)) destination pushed (time + 1)
           else dangerRecurse (pushed ! nat nextPos) destination pushed (time + 1))"
  by pat_completeness auto

definition manhattan :: "estimate \<Rightarrow> int \<times> int \<Rightarrow> nat" where
  "manhattan e destination = nat (\<bar>fst destination - est_x e\<bar> + \<bar>snd destination - est_y e\<bar>)"

lemma nextPos_first:
  "nat (int (length (project_step fut x1 y1 x2 y2)) - 2) = length fut"
  by (simp add: project_step_length)

lemma nextPos_marker:
  "nat (int (length (project_step fut x1 y1 x2 y2)) - 2 + 2) = length fut + 2"
  by (simp add: project_step_length)

lemma pushed_marker:
  "(project_step fut x1 y1 x2 y2 @ [time_marker]) ! (length fut + 2) = time_marker"
  using project_step_length[of fut x1 y1 x2 y2] by (metis nth_append_length)

lemma pushed_first:
  "(project_step fut x1 y1 x2 y2 @ [time_marker]) ! length fut
     = project_step fut x1 y1 x2 y2 ! length fut"
  by (simp add: nth_append project_step_length)

termination dangerRecurse
  apply (relation "measure (\<lambda>(e, destination, theFuture, time). manhattan e destination)")
    apply simp
   apply (simp only: nextPos_marker pushed_marker)
   apply (simp add: time_marker_def)
  apply (simp only: nextPos_first pushed_first)
  subgoal for e destination theFuture time x1 y1 x2 y2
    using first_cell_closer[of "est_x e" "fst destination" "est_y e" "snd destination" theFuture]
    by (auto simp: manhattan_def xDistance_of_def)
  done

section \<open>The grid\<close>

subsection \<open>Conversions of the C++ arithmetic\<close>

text \<open>A \<open>double\<close> converted to an integer type is cut towards zero.\<close>

definition c_trunc :: "real \<Rightarrow> int" where
  "c_trunc r = (if 0 \<le> r then \<lfloor>r\<rfloor> else \<lceil>r\<rceil>)"

text \<open>An \<open>int\<close> passed for an \<open>unsigned int\<close> parameter is taken modulo \<open>2^32\<close>.\<close>

definition c_unsigned :: "int \<Rightarrow> 32 word" where
  "c_unsigned i = word_of_int i"

subsection \<open>The class map (map\_fixed.h)\<close>

definition PLANE_DANGER :: real where
  "PLANE_DANGER = 98 / 100"

record grid_square =
  sq_planes :: "32 word list"
  sq_danger :: real

text \<open>\<open>grid_square()\<close> sets the danger to 0; the vector of planes starts empty.\<close>

definition grid_square_ctor :: grid_square where
  "grid_square_ctor = \<lparr>sq_planes = [], sq_danger = 0\<rparr>"

record map_t =
  the_map :: "grid_square list list"
  map_width :: real
  map_height :: real
  map_resolution :: real
  squares_wide :: nat
  squares_high :: nat

text \<open>
  The constructor \<open>map::map\<close>. Its three \<open>assert\<close>s are not guarded by \<open>DEBUG\<close>: a
  failed one ends the program, which is \<open>None\<close>. The number of squares is the quotient
  converted to \<open>unsigned int\<close>, which cuts it down (the source notes ``this rounds
  down''); the quotient is the exact one, so that a quotient of two \<open>double\<close>s which
  the machine rounds below a whole number, as that of 0.3 by 0.1, is that whole number
  here. The trace that the constructor prints at its end reads \<open>the_map[1].size()\<close>
  without a test: on a map less than two squares wide this access is out of range,
  which is \<open>None\<close>.
\<close>

definition map_ctor :: "real \<Rightarrow> real \<Rightarrow> real \<Rightarrow> map_t option" where
  "map_ctor width_of_field height_of_field resolution_of_map =
     (if width_of_field > EPSILON \<and> height_of_field > EPSILON \<and> resolution_of_map > EPSILON
      then
        (let wide = nat (c_trunc (width_of_field / resolution_of_map));
             high = nat (c_trunc (height_of_field / resolution_of_map));
             built = \<lparr>the_map = replicate wide (replicate high (grid_square_ctor\<lparr>sq_danger := 0\<rparr>)),
                      map_width = width_of_field,
                      map_height = height_of_field,
                      map_resolution = resolution_of_map,
                      squares_wide = wide,
                      squares_high = high\<rparr>
         in if 1 < length (the_map built) then Some built else None)
      else None)"

text \<open>
  The accessors index \<open>the_map[x_pos][y_pos]\<close> without a test; outside the vectors
  the source is undefined, and the model answers \<open>None\<close>.
\<close>

definition in_vectors :: "map_t \<Rightarrow> nat \<Rightarrow> nat \<Rightarrow> bool" where
  "in_vectors m x_pos y_pos \<longleftrightarrow> x_pos < length (the_map m) \<and> y_pos < length (the_map m ! x_pos)"

definition update_square :: "map_t \<Rightarrow> nat \<Rightarrow> nat \<Rightarrow> (grid_square \<Rightarrow> grid_square) \<Rightarrow> map_t" where
  "update_square m x_pos y_pos f =
     m\<lparr>the_map := (the_map m)[x_pos := (the_map m ! x_pos)[y_pos := f (the_map m ! x_pos ! y_pos)]]\<rparr>"

definition map_get_danger_at :: "map_t \<Rightarrow> nat \<Rightarrow> nat \<Rightarrow> real option" where
  "map_get_danger_at m x_pos y_pos =
     (if in_vectors m x_pos y_pos then Some (sq_danger (the_map m ! x_pos ! y_pos)) else None)"

definition map_set_danger_at :: "map_t \<Rightarrow> nat \<Rightarrow> nat \<Rightarrow> real \<Rightarrow> map_t option" where
  "map_set_danger_at m x_pos y_pos new_danger =
     (if in_vectors m x_pos y_pos
      then Some (update_square m x_pos y_pos (\<lambda>sq. sq\<lparr>sq_danger := new_danger\<rparr>))
      else None)"

definition map_add_plane_at :: "map_t \<Rightarrow> nat \<Rightarrow> nat \<Rightarrow> 32 word \<Rightarrow> map_t option" where
  "map_add_plane_at m x_pos y_pos ident =
     (if in_vectors m x_pos y_pos
      then Some (update_square m x_pos y_pos
                   (\<lambda>sq. sq\<lparr>sq_planes := sq_planes sq @ [ident], sq_danger := PLANE_DANGER\<rparr>))
      else None)"

definition get_width_in_squares :: "map_t \<Rightarrow> nat" where
  "get_width_in_squares m = squares_wide m"

definition get_height_in_squares :: "map_t \<Rightarrow> nat" where
  "get_height_in_squares m = squares_high m"

text \<open>\<open>get_resolution\<close> returns \<open>unsigned int\<close>: the resolution is cut to a whole number.\<close>

definition get_resolution :: "map_t \<Rightarrow> 32 word" where
  "get_resolution m = word_of_int (c_trunc (map_resolution m))"

text \<open>
  Modelled from the spec: \<open>map::add_danger_at\<close>, which \<open>danger_grid\<close> calls and
  map\_fixed.h does not declare. The spec (4.1) gives \<open>add_risk(x, y, v)\<close> as the
  accumulating accessor of the unsafe kind: the value is added to the risk of the
  square, and an access out of range is the caller's error.
\<close>

definition map_add_danger_at :: "map_t \<Rightarrow> nat \<Rightarrow> nat \<Rightarrow> real \<Rightarrow> map_t option" where
  "map_add_danger_at m x_pos y_pos d =
     (if in_vectors m x_pos y_pos
      then Some (update_square m x_pos y_pos (\<lambda>sq. sq\<lparr>sq_danger := sq_danger sq + d\<rparr>))
      else None)"

text \<open>
  Modelled from the spec: \<open>map::safely_add_danger_at\<close>, which \<open>set_danger_field\<close> calls
  and map\_fixed.h does not declare. The spec (4.1) gives \<open>safely_add_risk(x, y, v)\<close>
  ``as \<open>add_risk\<close>, but silently ignores the call if \<open>(x, y)\<close> is outside grid
  bounds''. The coordinates arrive as \<open>unsigned int\<close>.
\<close>

definition safely_add_danger_at :: "map_t \<Rightarrow> 32 word \<Rightarrow> 32 word \<Rightarrow> real \<Rightarrow> map_t" where
  "safely_add_danger_at m x_pos y_pos d =
     (if unat x_pos < squares_wide m \<and> unat y_pos < squares_high m
      then update_square m (unat x_pos) (unat y_pos) (\<lambda>sq. sq\<lparr>sq_danger := sq_danger sq + d\<rparr>)
      else m)"

subsection \<open>The sizing helpers of map\_tools\<close>

definition find_width_in_squares :: "real \<Rightarrow> real \<Rightarrow> real \<Rightarrow> 32 word" where
  "find_width_in_squares width_of_field height_of_field resolution_of_map =
     c_unsigned (c_trunc (real_of_int \<lceil>width_of_field / resolution_of_map\<rceil> + 1 / 10))"

definition find_height_in_squares :: "real \<Rightarrow> real \<Rightarrow> real \<Rightarrow> 32 word" where
  "find_height_in_squares width_of_field height_of_field resolution_of_map =
     c_unsigned (c_trunc (real_of_int \<lceil>height_of_field / resolution_of_map\<rceil> + 1 / 10))"

section \<open>The danger grid\<close>

subsection \<open>Aircraft\<close>

text \<open>
  The classes \<open>Position\<close> and \<open>Plane\<close> are declared outside the three files; the
  danger grid reads them through the getters below and never writes them.
\<close>

record Position =
  getX :: int
  getY :: int

record Plane =
  getId :: int
  getLocation :: Position
  getDestination :: Position
  getFinalDestination :: Position
  getBearing :: real
  getBearingToDest :: real

subsection \<open>calculate\_future\_pos\<close>

text \<open>
  The parameter \<open>time\<close> is passed by reference; the function returns the estimates
  together with the value \<open>time\<close> has at the end. The body is given in three parts:
  \<open>beyond_goal\<close> is the tail after the recursion (``add prediction to one square ahead of
  goal'' and the two seconds after it), \<open>project_leg\<close> is the body once \<open>current\<close> and
  \<open>destination\<close> are chosen, and \<open>calculate_future_pos\<close> is the choice on \<open>time\<close>.
  In the tail the array \<open>neighbors\<close> still holds the pair of the first step, and
  \<open>neighoboringAngles\<close> keeps it when the bearing to the destination lies outside
  \<open>[-180, 180]\<close>.
\<close>

definition beyond_goal ::
  "real \<Rightarrow> real \<times> real \<Rightarrow> estimate list \<Rightarrow> int \<Rightarrow> int \<Rightarrow> estimate list" where
  "beyond_goal angle old_neighbors theFuture x2 y2 =
     (let neighbors = neighoboringAngles angle old_neighbors;
          co = closest_and_other angle neighbors;
          theFuture = placeDanger angle theFuture (fst co) (snd co) x2 y2 1;
          theFuture = theFuture @ [time_marker];
          theFuture = placeDanger angle theFuture (fst co) (snd co)
                        (est_x (theFuture ! (length theFuture - 3)))
                        (est_y (theFuture ! (length theFuture - 3))) 1;
          theFuture = theFuture @ [time_marker]
      in placeDanger angle theFuture (fst co) (snd co)
           (est_x (theFuture ! (length theFuture - 3)))
           (est_y (theFuture ! (length theFuture - 3))) 1)"

definition project_leg :: "Position \<Rightarrow> Position \<Rightarrow> real \<Rightarrow> int \<Rightarrow> estimate list \<times> int" where
  "project_leg current destination bearing_to_dest time =
     (let x1 = getX current; x2 = getX destination;
          y1 = getY current; y2 = getY destination
      in if xDistance_of x1 x2 = 0 \<and> xDistance_of y1 y2 = 0 then ([], time)
         else
           (let angle = angle_to_waypoint x1 y1 x2 y2;
                neighbors = neighoboringAngles angle (0, 0);
                theFuture = project_step [] x1 y1 x2 y2 @ [time_marker];
                branch = (if est_danger (theFuture ! 1) > 3 / 10
                          then dangerRecurse (theFuture ! 1) (x2, y2) theFuture (time + 1)
                          else dangerRecurse (theFuture ! 0) (x2, y2) theFuture (time + 1))
            in (beyond_goal bearing_to_dest neighbors (fst branch) x2 y2, snd branch)))"

definition calculate_future_pos :: "Plane \<Rightarrow> int \<Rightarrow> estimate list \<times> int" where
  "calculate_future_pos plane time =
     (if time = 0
      then project_leg (getLocation plane) (getDestination plane) (getBearingToDest plane) time
      else project_leg (getDestination plane) (getFinalDestination plane) (getBearingToDest plane) time)"

subsection \<open>The state of a danger grid\<close>

text \<open>
  The members of the class, and the file-level \<open>static double plane_danger\<close> that the
  constructor sets. \<open>danger_space\<close> is the vector of maps, one per second;
  \<open>dist_map\<close> is the pointer that \<open>calculate_distance_costs\<close> sets.
\<close>

record danger_grid =
  danger_ratings :: "real list"
  aircraft :: "Plane list"
  danger_space :: "map_t list"
  map_res :: real
  dist_map :: "map_t option"
  distance_costs_initialized :: bool
  plane_danger :: real

text \<open>
  The index \<open>seconds + look_behind\<close> is computed in \<open>unsigned int\<close>, the type of
  \<open>look_behind\<close>.
\<close>

definition slice_index :: "int \<Rightarrow> nat" where
  "slice_index seconds = unat (c_unsigned seconds + word_of_nat look_behind)"

text \<open>\<open>(*danger_space)[i].f(...)\<close> for a member function \<open>f\<close> of \<open>map\<close> that may fail.\<close>

definition on_slice :: "map_t list \<Rightarrow> nat \<Rightarrow> (map_t \<Rightarrow> map_t option) \<Rightarrow> map_t list option" where
  "on_slice ds i f =
     (if i < length ds
      then (case f (ds ! i) of None \<Rightarrow> None | Some m \<Rightarrow> Some (ds[i := m]))
      else None)"

definition get_danger_at :: "danger_grid \<Rightarrow> nat \<Rightarrow> nat \<Rightarrow> int \<Rightarrow> real option" where
  "get_danger_at dg x_pos y_pos seconds =
     (if slice_index seconds < length (danger_space dg)
      then map_get_danger_at (danger_space dg ! slice_index seconds) x_pos y_pos
      else None)"

definition add_danger_at :: "danger_grid \<Rightarrow> nat \<Rightarrow> nat \<Rightarrow> int \<Rightarrow> real \<Rightarrow> danger_grid option" where
  "add_danger_at dg x_pos y_pos seconds d =
     (case on_slice (danger_space dg) (slice_index seconds) (\<lambda>m. map_add_danger_at m x_pos y_pos d) of
        None \<Rightarrow> None
      | Some ds \<Rightarrow> Some (dg\<lparr>danger_space := ds\<rparr>))"

definition set_danger_at :: "danger_grid \<Rightarrow> nat \<Rightarrow> nat \<Rightarrow> int \<Rightarrow> real \<Rightarrow> danger_grid option" where
  "set_danger_at dg x_pos y_pos seconds d =
     (case on_slice (danger_space dg) (slice_index seconds) (\<lambda>m. map_set_danger_at m x_pos y_pos d) of
        None \<Rightarrow> None
      | Some ds \<Rightarrow> Some (dg\<lparr>danger_space := ds\<rparr>))"

text \<open>
  \<open>danger_grid::get_width_in_squares\<close> and \<open>get_height_in_squares\<close> read the first map
  of the danger space.
\<close>

definition dg_get_width_in_squares :: "danger_grid \<Rightarrow> nat" where
  "dg_get_width_in_squares dg = get_width_in_squares (danger_space dg ! 0)"

definition dg_get_height_in_squares :: "danger_grid \<Rightarrow> nat" where
  "dg_get_height_in_squares dg = get_height_in_squares (danger_space dg ! 0)"

definition adjust_danger :: "real list \<Rightarrow> int \<Rightarrow> real option" where
  "adjust_danger ratings seconds =
     (if slice_index seconds < length ratings then Some (ratings ! slice_index seconds) else None)"

text \<open>\<open>set_danger_scale\<close> pushes \<open>plane_danger\<close> for \<open>i = 0, ..., look_behind + look_ahead + 1\<close>.\<close>

definition set_danger_scale :: "danger_grid \<Rightarrow> danger_grid" where
  "set_danger_scale dg =
     dg\<lparr>danger_ratings := danger_ratings dg @ replicate (look_behind + look_ahead + 2) (plane_danger dg)\<rparr>"

subsection \<open>set\_danger\_field\<close>

text \<open>
  The eight calls of the body in the order of the source; the \<open>switch\<close> on the named
  bearing is commented out there, so the parameter \<open>bearing\<close> is not read. The
  coordinates are \<open>natural\<close>, so the neighbours are computed modulo \<open>2^32\<close>.
\<close>

definition set_danger_field ::
  "real \<Rightarrow> real \<Rightarrow> 32 word \<Rightarrow> 32 word \<Rightarrow> nat \<Rightarrow> map_t list \<Rightarrow> map_t list option" where
  "set_danger_field bearing unweighted_danger px py time ds =
     (let d = unweighted_danger * field_weight in
      if time < length ds then
        (let m = ds ! time;
             m = safely_add_danger_at m (px - 1) (py + 1) d;
             m = safely_add_danger_at m (px - 1) py d;
             m = safely_add_danger_at m (px - 1) (py - 1) d;
             m = safely_add_danger_at m px (py - 1) d;
             m = safely_add_danger_at m (px + 1) (py - 1) d;
             m = safely_add_danger_at m (px + 1) py d;
             m = safely_add_danger_at m (px + 1) (py + 1) d;
             m = safely_add_danger_at m px (py + 1) d
         in Some (ds[time := m]))
      else None)"

subsection \<open>fill\_danger\_space\<close>

text \<open>
  The walk over one vector of estimates (the source has the loop twice, once for
  \<open>est_to_avoid\<close> and once for \<open>est_to_goal\<close>): the counter \<open>t\<close> and the danger space
  go in and come out. \<open>legal_estimate\<close> is the test of the inner \<open>if\<close>: ``legal xs and
  ys'', and a danger that is not that of a divider.
\<close>

definition legal_estimate :: "map_t list \<Rightarrow> estimate \<Rightarrow> bool" where
  "legal_estimate ds current_est \<longleftrightarrow>
     est_x current_est \<ge> 0
     \<and> est_x current_est < int (get_width_in_squares (ds ! 0))
     \<and> est_y current_est \<ge> 0
     \<and> est_y current_est < int (get_height_in_squares (ds ! 0))
     \<and> est_danger current_est > - EPSILON"

fun walk_estimates ::
  "real list \<Rightarrow> real \<Rightarrow> estimate list \<Rightarrow> int \<Rightarrow> map_t list \<Rightarrow> (int \<times> map_t list) option" where
  "walk_estimates ratings bearing [] t ds = Some (t, ds)"
| "walk_estimates ratings bearing (current_est # rest) t ds =
     (if t \<le> int look_ahead then
        (if ds = [] then None
         else if legal_estimate ds current_est then
           (let time = slice_index t;
                px = c_unsigned (est_x current_est);
                py = c_unsigned (est_y current_est)
            in case adjust_danger ratings t of
                 None \<Rightarrow> None
               | Some a \<Rightarrow>
                   (let d = est_danger current_est * a in
                    case on_slice ds time (\<lambda>m. map_add_danger_at m (unat px) (unat py) d) of
                      None \<Rightarrow> None
                    | Some ds1 \<Rightarrow>
                        (case set_danger_field bearing d px py time ds1 of
                           None \<Rightarrow> None
                         | Some ds2 \<Rightarrow> walk_estimates ratings bearing rest t ds2)))
         else walk_estimates ratings bearing rest (t + 1) ds)
      else walk_estimates ratings bearing rest t ds)"

text \<open>The body of the loop over the aircraft, for one plane.\<close>

definition fill_plane :: "32 word \<Rightarrow> Plane \<Rightarrow> danger_grid \<Rightarrow> danger_grid option" where
  "fill_plane plane_id current_plane dg =
     (if getId current_plane \<noteq> sint plane_id then
        (case on_slice (danger_space dg) (0 + look_behind)
                (\<lambda>m. map_add_danger_at m
                        (unat (c_unsigned (getX (getLocation current_plane))))
                        (unat (c_unsigned (getY (getLocation current_plane))))
                        (plane_danger dg)) of
           None \<Rightarrow> None
         | Some ds0 \<Rightarrow>
             (let (est_to_avoid, dummy) = calculate_future_pos current_plane 0;
                  est_break = dummy;
                  (est_to_goal, dummy) = calculate_future_pos current_plane dummy;
                  bearing = getBearing current_plane
              in case walk_estimates (danger_ratings dg) bearing est_to_avoid 1 ds0 of
                   None \<Rightarrow> None
                 | Some (t, ds1) \<Rightarrow>
                     (case walk_estimates (danger_ratings dg) bearing est_to_goal (est_break + 1) ds1 of
                        None \<Rightarrow> None
                      | Some (t', ds2) \<Rightarrow> Some (dg\<lparr>danger_space := ds2\<rparr>))))
      else Some dg)"

fun fill_planes :: "32 word \<Rightarrow> Plane list \<Rightarrow> danger_grid \<Rightarrow> danger_grid option" where
  "fill_planes plane_id [] dg = Some dg"
| "fill_planes plane_id (current_plane # rest) dg =
     (case fill_plane plane_id current_plane dg of
        None \<Rightarrow> None
      | Some dg' \<Rightarrow> fill_planes plane_id rest dg')"

definition fill_danger_space :: "32 word \<Rightarrow> danger_grid \<Rightarrow> danger_grid option" where
  "fill_danger_space plane_id dg = fill_planes plane_id (aircraft dg) dg"

subsection \<open>The constructor\<close>

text \<open>
  \<open>danger_grid(set_of_aircraft, width, height, resolution, plane_id)\<close>. The asserts of
  the constructor stand under \<open>#ifdef DEBUG\<close> and are not part of the build modelled
  here; those of \<open>map::map\<close> are. \<open>sqrs_wide * sqrs_wide + sqrs_high * sqrs_high\<close> is
  computed in \<open>unsigned int\<close>.
\<close>

definition danger_grid_ctor ::
  "Plane list \<Rightarrow> real \<Rightarrow> real \<Rightarrow> real \<Rightarrow> 32 word \<Rightarrow> danger_grid option" where
  "danger_grid_ctor set_of_aircraft w h res plane_id =
     (let sqrs_wide = find_width_in_squares w h res;
          sqrs_high = find_height_in_squares w h res;
          pd = sqrt (real (unat (sqrs_wide * sqrs_wide + sqrs_high * sqrs_high))) * (5 / 2)
      in case map_ctor w h res of
           None \<Rightarrow> None
         | Some set_up \<Rightarrow>
             fill_danger_space plane_id
               (set_danger_scale
                  \<lparr>danger_ratings = [],
                   aircraft = set_of_aircraft,
                   danger_space = replicate slice_count set_up,
                   map_res = res,
                   dist_map = None,
                   distance_costs_initialized = False,
                   plane_danger = pd\<rparr>))"

subsection \<open>calculate\_distance\_costs\<close>

text \<open>A counted \<open>for\<close> loop whose body may fail: the indices in order, the state threaded.\<close>

fun for_each :: "nat list \<Rightarrow> (nat \<Rightarrow> 's \<Rightarrow> 's option) \<Rightarrow> 's \<Rightarrow> 's option" where
  "for_each [] body s = Some s"
| "for_each (i # rest) body s =
     (case body i s of None \<Rightarrow> None | Some s' \<Rightarrow> for_each rest body s')"

text \<open>\<open>danger_grid::get_res\<close> returns the whole-number resolution of the first map as a \<open>double\<close>.\<close>

definition get_res :: "danger_grid \<Rightarrow> real" where
  "get_res dg = real (unat (get_resolution (danger_space dg ! 0)))"

text \<open>
  The distance written into \<open>dist_map\<close>: the differences, the squares and the sum are
  computed in \<open>unsigned int\<close>, and only the sum is converted for \<open>sqrt\<close>.
\<close>

definition goal_distance :: "32 word \<Rightarrow> 32 word \<Rightarrow> 32 word \<Rightarrow> 32 word \<Rightarrow> real" where
  "goal_distance crnt_x crnt_y goal_x goal_y =
     sqrt (real (unat ((crnt_x - goal_x) * (crnt_x - goal_x) + (crnt_y - goal_y) * (crnt_y - goal_y))))"

text \<open>The body of the innermost loop of the blend, for one square and one index \<open>crnt_t\<close>.\<close>

definition blend_cell ::
  "map_t list \<Rightarrow> map_t \<Rightarrow> real \<Rightarrow> nat \<Rightarrow> nat \<Rightarrow> nat \<Rightarrow> map_t list \<Rightarrow> map_t list option" where
  "blend_cell old_danger_space dm danger_adjust crnt_x crnt_y crnt_t ds =
     (if crnt_t < length old_danger_space then
        (case map_get_danger_at (old_danger_space ! crnt_t) crnt_x crnt_y of
           None \<Rightarrow> None
         | Some crnt_danger \<Rightarrow>
             if crnt_danger > EPSILON then
               (case map_get_danger_at dm crnt_x crnt_y of
                  None \<Rightarrow> None
                | Some goal_cost \<Rightarrow>
                    on_slice ds crnt_t
                      (\<lambda>m. map_set_danger_at m crnt_x crnt_y (danger_adjust * crnt_danger + goal_cost)))
             else Some ds)
      else None)"

definition calculate_distance_costs ::
  "32 word \<Rightarrow> 32 word \<Rightarrow> real \<Rightarrow> danger_grid \<Rightarrow> danger_grid option" where
  "calculate_distance_costs goal_x goal_y danger_adjust dg =
     (if danger_space dg = [] then None
      else
        (case map_ctor (real (dg_get_width_in_squares dg) * get_res dg)
                       (real (dg_get_height_in_squares dg) * get_res dg) (get_res dg) of
           None \<Rightarrow> None
         | Some fresh \<Rightarrow>
             (case for_each [0 ..< dg_get_width_in_squares dg]
                     (\<lambda>crnt_x. for_each [0 ..< dg_get_height_in_squares dg]
                        (\<lambda>crnt_y m. map_set_danger_at m crnt_x crnt_y
                                       (goal_distance (word_of_nat crnt_x) (word_of_nat crnt_y)
                                          goal_x goal_y)))
                     fresh of
                None \<Rightarrow> None
              | Some dm \<Rightarrow>
                  (let old_danger_space = danger_space dg;
                       new_danger_space = replicate slice_count dm
                   in case for_each [0 ..< get_width_in_squares (new_danger_space ! 0)]
                             (\<lambda>crnt_x. for_each [0 ..< get_height_in_squares (new_danger_space ! 0)]
                                (\<lambda>crnt_y. for_each [0 ..< look_ahead]
                                   (\<lambda>crnt_t. blend_cell old_danger_space dm danger_adjust
                                                 crnt_x crnt_y crnt_t)))
                             new_danger_space of
                        None \<Rightarrow> None
                      | Some ds \<Rightarrow>
                          Some (dg\<lparr>dist_map := Some dm,
                                   distance_costs_initialized := True,
                                   danger_space := ds\<rparr>)))))"

text \<open>The overload without \<open>danger_adjust\<close> passes 1.0.\<close>

definition calculate_distance_costs_default :: "32 word \<Rightarrow> 32 word \<Rightarrow> danger_grid \<Rightarrow> danger_grid option" where
  "calculate_distance_costs_default goal_x goal_y dg = calculate_distance_costs goal_x goal_y 1 dg"

text \<open>
  \<open>get_dist_cost_at\<close> returns a value only when the distance costs are initialised;
  otherwise the function ends without a \<open>return\<close>, which is \<open>None\<close> here.
\<close>

definition get_dist_cost_at :: "danger_grid \<Rightarrow> nat \<Rightarrow> nat \<Rightarrow> real option" where
  "get_dist_cost_at dg x_pos y_pos =
     (if distance_costs_initialized dg
      then (case dist_map dg of None \<Rightarrow> None | Some dm \<Rightarrow> map_get_danger_at dm x_pos y_pos)
      else None)"

section \<open>Properties of the projector\<close>

text \<open>
  The recursion unfolds to a single recursive call: the test on the danger of the
  element at \<open>nextPos + 2\<close> reads the divider that was just pushed, whose danger is
  \<open>-1\<close>, so the first branch is never taken.
\<close>

declare dangerRecurse.simps [simp del]

lemma dangerRecurse_unfold:
  "dangerRecurse e destination theFuture time =
     (if est_x e = fst destination \<and> est_y e = snd destination then (theFuture, time)
      else dangerRecurse
             (project_step theFuture (est_x e) (est_y e) (fst destination) (snd destination)
                ! length theFuture)
             destination
             (project_step theFuture (est_x e) (est_y e) (fst destination) (snd destination)
                @ [time_marker])
             (time + 1))"
proof -
  have z: "(xDistance_of (est_x e) (fst destination) = 0 \<and> xDistance_of (est_y e) (snd destination) = 0)
      \<longleftrightarrow> (est_x e = fst destination \<and> est_y e = snd destination)"
    by (auto simp: xDistance_of_def)
  have m: "\<not> est_danger time_marker > 3 / 10" by (simp add: time_marker_def)
  show ?thesis
    by (subst dangerRecurse.simps)
       (simp only: Let_def z nextPos_first nextPos_marker pushed_marker pushed_first m if_False)
qed

lemma manhattan_first_cell:
  assumes "est_x e \<noteq> fst destination \<or> est_y e \<noteq> snd destination"
  shows "manhattan (project_step fut (est_x e) (est_y e) (fst destination) (snd destination) ! length fut)
           destination < manhattan e destination"
  using first_cell_closer[OF assms, of fut] by (simp add: manhattan_def)

lemma manhattan_zero: "manhattan e destination = 0 \<longleftrightarrow> (est_x e = fst destination \<and> est_y e = snd destination)"
  by (auto simp: manhattan_def)

lemma nth_past_three: "3 \<le> n \<Longrightarrow> (a # b # c # ys) ! n = ys ! (n - 3)"
proof -
  assume "3 \<le> n"
  then have "n = Suc (Suc (Suc (n - 3)))" by arith
  then have "(a # b # c # ys) ! n = (a # b # c # ys) ! Suc (Suc (Suc (n - 3)))" by simp
  then show ?thesis by (simp only: nth_Cons_Suc)
qed


lemma ceiling_clamp_range: "0 \<le> d \<Longrightarrow> 0 \<le> ceiling_clamp d \<and> ceiling_clamp d \<le> 4 / 10"
  by (simp add: ceiling_clamp_def dangerCeiling_def)

lemma step_displacement_range:
  assumes nd: "x1 \<noteq> x2 \<or> y1 \<noteq> y2"
  shows "1 / 2 \<le> step_displacement x1 y1 x2 y2" "step_displacement x1 y1 x2 y2 \<le> 1"
proof -
  note af = angle_facts[OF nd]
  have r: "- 180 \<le> angle_to_waypoint x1 y1 x2 y2" "angle_to_waypoint x1 y1 x2 y2 \<le> 180"
    using af(1,2) by simp_all
  show "1 / 2 \<le> step_displacement x1 y1 x2 y2" "step_displacement x1 y1 x2 y2 \<le> 1"
    unfolding step_displacement_def Let_def using displacement_range[OF r] by simp_all
qed


lemma angle_due_north: "angle_to_waypoint 0 1 0 0 = 0"
  by (simp add: angle_to_waypoint_def xDistance_of_def Let_def)

lemma project_step_due_north:
  "project_step [] 0 1 0 0 = [estimate_of 0 0 (2 / 5), estimate_of (- 1) 0 0]"
  by (simp add: project_step_def step_displacement_def angle_due_north Let_def
      neighoboringAngles_def closest_and_other_def displacement_def placeDanger_def
      mass_split_def ceiling_clamp_def dangerCeiling_def)








section \<open>Properties of the grid\<close>

text \<open>
  The notions the properties are stated with: a map is well formed (\<open>map_ok\<close>) when its
  vectors have the sizes the map records; \<open>danger_of\<close> reads the danger of a square of
  a well-formed map; \<open>neighbour_cells\<close> lists the eight neighbours of a square in the
  order in which \<open>set_danger_field\<close> visits them.
\<close>

definition map_ok :: "map_t \<Rightarrow> bool" where
  "map_ok m \<longleftrightarrow> length (the_map m) = squares_wide m
              \<and> (\<forall>i < squares_wide m. length (the_map m ! i) = squares_high m)"

definition danger_of :: "map_t \<Rightarrow> nat \<Rightarrow> nat \<Rightarrow> real" where
  "danger_of m i j = sq_danger (the_map m ! i ! j)"

definition neighbour_cells :: "32 word \<Rightarrow> 32 word \<Rightarrow> (32 word \<times> 32 word) list" where
  "neighbour_cells px py =
     [(px - 1, py + 1), (px - 1, py), (px - 1, py - 1), (px, py - 1),
      (px + 1, py - 1), (px + 1, py), (px + 1, py + 1), (px, py + 1)]"

lemma word_pred_succ: "(x::32 word) - 1 \<noteq> x + 1"
proof
  assume "x - 1 = x + 1"
  then have "(x - 1) - (x - 1) = (x + 1) - (x - 1)" by simp
  then have "(0::32 word) = 2" by simp
  then show False by simp
qed

lemma distinct_neighbour_cells: "distinct (neighbour_cells px py)"
  using word_pred_succ[of px] word_pred_succ[of py] by (auto simp: neighbour_cells_def)

lemma nth_update_total: "xs[i := v] ! j = (if i = j \<and> i < length xs then v else xs ! j)"
  by (cases "i < length xs") (auto simp: nth_list_update list_update_beyond)

lemma update_square_dims [simp]:
  "squares_wide (update_square m x y f) = squares_wide m"
  "squares_high (update_square m x y f) = squares_high m"
  "length (the_map (update_square m x y f)) = length (the_map m)"
  by (simp_all add: update_square_def)

lemma update_square_ok: "map_ok m \<Longrightarrow> map_ok (update_square m x y f)"
  by (auto simp: map_ok_def update_square_def nth_update_total)

lemma update_square_cell:
  assumes "map_ok m" "i < squares_wide m" "j < squares_high m"
  shows "the_map (update_square m x y f) ! i ! j =
           (if i = x \<and> j = y then f (the_map m ! i ! j) else the_map m ! i ! j)"
  using assms by (auto simp: map_ok_def update_square_def nth_update_total)

lemma safely_add_dims [simp]:
  "squares_wide (safely_add_danger_at m x y d) = squares_wide m"
  "squares_high (safely_add_danger_at m x y d) = squares_high m"
  by (simp_all add: safely_add_danger_at_def)

lemma safely_add_ok: "map_ok m \<Longrightarrow> map_ok (safely_add_danger_at m x y d)"
  by (simp add: safely_add_danger_at_def update_square_ok)

lemma safely_add_cell:
  assumes "map_ok m" "i < squares_wide m" "j < squares_high m"
  shows "danger_of (safely_add_danger_at m x y d) i j =
           danger_of m i j + (if unat x = i \<and> unat y = j then d else 0)"
  using assms by (auto simp: safely_add_danger_at_def danger_of_def update_square_cell)

text \<open>The eight calls as one fold over the neighbours.\<close>

definition spread :: "map_t \<Rightarrow> (32 word \<times> 32 word) list \<Rightarrow> real \<Rightarrow> map_t" where
  "spread m cells d = foldl (\<lambda>m c. safely_add_danger_at m (fst c) (snd c) d) m cells"

lemma spread_dims [simp]:
  "squares_wide (spread m cells d) = squares_wide m"
  "squares_high (spread m cells d) = squares_high m"
  by (induction cells arbitrary: m; simp add: spread_def)+

lemma spread_ok: "map_ok m \<Longrightarrow> map_ok (spread m cells d)"
  by (induction cells arbitrary: m) (simp_all add: spread_def safely_add_ok)

lemma spread_cell:
  assumes "map_ok m" "i < squares_wide m" "j < squares_high m"
  shows "danger_of (spread m cells d) i j =
           danger_of m i j + real (length (filter (\<lambda>c. unat (fst c) = i \<and> unat (snd c) = j) cells)) * d"
  using assms
proof (induction cells arbitrary: m)
  case Nil
  then show ?case by (simp add: spread_def)
next
  case (Cons c cells)
  have "spread m (c # cells) d = spread (safely_add_danger_at m (fst c) (snd c) d) cells d"
    by (simp add: spread_def)
  then show ?case
    using Cons.IH[of "safely_add_danger_at m (fst c) (snd c) d"] Cons.prems
    by (simp add: safely_add_ok safely_add_cell algebra_simps)
qed

lemma filter_distinct_count:
  assumes "distinct xs"
  shows "length (filter (\<lambda>c. c = p) xs) = (if p \<in> set xs then 1 else 0)"
  using assms by (induction xs) auto

lemma set_danger_field_spread:
  "set_danger_field bearing ud px py time ds =
     (if time < length ds
      then Some (ds[time := spread (ds ! time) (neighbour_cells px py) (ud * field_weight)])
      else None)"
  by (simp add: set_danger_field_def Let_def spread_def neighbour_cells_def)

definition is_neighbour :: "32 word \<Rightarrow> 32 word \<Rightarrow> nat \<Rightarrow> nat \<Rightarrow> bool" where
  "is_neighbour px py i j \<longleftrightarrow> (i, j) \<in> set (map (\<lambda>c. (unat (fst c), unat (snd c))) (neighbour_cells px py))"

lemma neighbour_count:
  "length (filter (\<lambda>c. unat (fst c) = i \<and> unat (snd c) = j) (neighbour_cells px py))
     = (if is_neighbour px py i j then 1 else 0)"
proof -
  have inj: "inj (\<lambda>c::32 word \<times> 32 word. (unat (fst c), unat (snd c)))"
    by (auto simp: inj_on_def prod_eq_iff word_unat_eq_iff)
  have d: "distinct (map (\<lambda>c. (unat (fst c), unat (snd c))) (neighbour_cells px py))"
    using distinct_neighbour_cells inj_on_subset[OF inj subset_UNIV] by (simp add: distinct_map)
  have "length (filter (\<lambda>c. unat (fst c) = i \<and> unat (snd c) = j) (neighbour_cells px py))
      = length (filter (\<lambda>q. q = (i, j)) (map (\<lambda>c. (unat (fst c), unat (snd c))) (neighbour_cells px py)))"
    by (simp add: filter_map comp_def)
  also have "\<dots> = (if is_neighbour px py i j then 1 else 0)"
    unfolding is_neighbour_def by (rule filter_distinct_count[OF d])
  finally show ?thesis .
qed


section \<open>Invariants of the danger space\<close>

lemma unat_word_of_int_small:
  assumes "0 \<le> k" "k < 2 ^ 32"
  shows "unat (word_of_int k :: 32 word) = nat k"
proof -
  have "uint (word_of_int k :: 32 word) = k mod 2 ^ 32" by (simp add: uint_word_of_int)
  also have "\<dots> = k" using assms by simp
  finally show ?thesis by (simp only: unat_eq_nat_uint)
qed

lemma slice_index_nat:
  assumes "- int look_behind \<le> s" "s \<le> int look_ahead"
  shows "slice_index s = nat (s + int look_behind)"
proof -
  have r: "0 \<le> s + 2" "s + 2 < 2 ^ 32" using assms by (simp_all add: look_behind_def look_ahead_def)
  have "c_unsigned s + word_of_nat look_behind = (word_of_int (s + 2) :: 32 word)"
    by (simp add: c_unsigned_def look_behind_def)
  then have "slice_index s = unat (word_of_int (s + 2) :: 32 word)" by (simp only: slice_index_def)
  also have "\<dots> = nat (s + 2)" by (rule unat_word_of_int_small[OF r])
  finally show ?thesis by (simp add: look_behind_def)
qed

lemma unat_c_unsigned:
  assumes "0 \<le> i" "i < 2 ^ 32"
  shows "unat (c_unsigned i) = nat i"
  unfolding c_unsigned_def by (rule unat_word_of_int_small[OF assms])

definition space_ok :: "map_t list \<Rightarrow> nat \<Rightarrow> nat \<Rightarrow> bool" where
  "space_ok ds W H \<longleftrightarrow>
     length ds = slice_count
     \<and> (\<forall>s < length ds. map_ok (ds ! s) \<and> squares_wide (ds ! s) = W \<and> squares_high (ds ! s) = H)"

definition space_nonneg :: "map_t list \<Rightarrow> bool" where
  "space_nonneg ds \<longleftrightarrow>
     (\<forall>s < length ds. \<forall>i < squares_wide (ds ! s). \<forall>j < squares_high (ds ! s).
        0 \<le> danger_of (ds ! s) i j)"

definition est_ok :: "estimate \<Rightarrow> bool" where
  "est_ok e \<longleftrightarrow> est_danger e = - 1 \<or> 0 \<le> est_danger e"

lemma map_add_danger_at_Some:
  assumes "map_add_danger_at m x y d = Some m'"
  shows "m' = update_square m x y (\<lambda>sq. sq\<lparr>sq_danger := sq_danger sq + d\<rparr>)"
  using assms by (simp add: map_add_danger_at_def split: if_splits)

lemma map_add_danger_at_cell:
  assumes "map_add_danger_at m x y d = Some m'" "map_ok m" "i < squares_wide m" "j < squares_high m"
  shows "danger_of m' i j = danger_of m i j + (if i = x \<and> j = y then d else 0)"
  unfolding map_add_danger_at_Some[OF assms(1)] danger_of_def
  by (simp add: update_square_cell[OF assms(2,3,4)])

lemma on_slice_Some:
  assumes "on_slice ds k f = Some ds'"
  obtains m' where "k < length ds" "f (ds ! k) = Some m'" "ds' = ds[k := m']"
  using assms by (auto simp: on_slice_def split: if_splits option.splits)

lemma slice_update_inv:
  assumes ok: "space_ok ds W H" and nn: "space_nonneg ds" and k: "k < length ds"
    and m1: "map_ok m'" and m2: "squares_wide m' = W" and m3: "squares_high m' = H"
    and m4: "\<forall>i < W. \<forall>j < H. 0 \<le> danger_of m' i j"
  shows "space_ok (ds[k := m']) W H" "space_nonneg (ds[k := m'])"
proof -
  show "space_ok (ds[k := m']) W H"
    using ok k m1 m2 m3 by (auto simp: space_ok_def nth_update_total)
  show "space_nonneg (ds[k := m'])"
    unfolding space_nonneg_def
  proof (intro allI impI)
    fix s i j
    assume s: "s < length (ds[k := m'])" and i: "i < squares_wide (ds[k := m'] ! s)"
      and j: "j < squares_high (ds[k := m'] ! s)"
    show "0 \<le> danger_of (ds[k := m'] ! s) i j"
    proof (cases "s = k")
      case True
      then show ?thesis using k i j m2 m3 m4 by simp
    next
      case False
      then show ?thesis using nn s i j by (simp add: space_nonneg_def)
    qed
  qed
qed

lemma on_slice_add_inv:
  assumes os: "on_slice ds k (\<lambda>m. map_add_danger_at m x y d) = Some ds'"
    and ok: "space_ok ds W H" and nn: "space_nonneg ds" and d: "0 \<le> d"
  shows "space_ok ds' W H" "space_nonneg ds'" "\<forall>s. s \<noteq> k \<longrightarrow> ds' ! s = ds ! s"
proof -
  obtain m' where k: "k < length ds" and f: "map_add_danger_at (ds ! k) x y d = Some m'"
    and e: "ds' = ds[k := m']" using os by (rule on_slice_Some)
  have mk: "map_ok (ds ! k)" "squares_wide (ds ! k) = W" "squares_high (ds ! k) = H"
    using ok k by (simp_all add: space_ok_def)
  have m': "m' = update_square (ds ! k) x y (\<lambda>sq. sq\<lparr>sq_danger := sq_danger sq + d\<rparr>)"
    by (rule map_add_danger_at_Some[OF f])
  have m1: "map_ok m'" unfolding m' by (rule update_square_ok[OF mk(1)])
  have m2: "squares_wide m' = W" "squares_high m' = H" unfolding m' using mk by simp_all
  have m4: "\<forall>i < W. \<forall>j < H. 0 \<le> danger_of m' i j"
  proof (intro allI impI)
    fix i j assume i: "i < W" and j: "j < H"
    have "0 \<le> danger_of (ds ! k) i j" using nn k i j mk by (simp add: space_nonneg_def)
    then show "0 \<le> danger_of m' i j"
      using map_add_danger_at_cell[OF f mk(1), of i j] i j mk d by simp
  qed
  show "space_ok ds' W H" "space_nonneg ds'"
    unfolding e using slice_update_inv[OF ok nn k m1 m2 m4] by simp_all
  show "\<forall>s. s \<noteq> k \<longrightarrow> ds' ! s = ds ! s" by (simp add: e)
qed

lemma set_danger_field_inv:
  assumes sf: "set_danger_field bearing d px py k ds = Some ds'"
    and ok: "space_ok ds W H" and nn: "space_nonneg ds" and d: "0 \<le> d"
  shows "space_ok ds' W H" "space_nonneg ds'" "\<forall>s. s \<noteq> k \<longrightarrow> ds' ! s = ds ! s"
proof -
  have k: "k < length ds" using sf by (simp add: set_danger_field_spread split: if_splits)
  define m' where "m' = spread (ds ! k) (neighbour_cells px py) (d * field_weight)"
  have e: "ds' = ds[k := m']" using sf k by (simp add: set_danger_field_spread m'_def)
  have mk: "map_ok (ds ! k)" "squares_wide (ds ! k) = W" "squares_high (ds ! k) = H"
    using ok k by (simp_all add: space_ok_def)
  have m1: "map_ok m'" unfolding m'_def by (rule spread_ok[OF mk(1)])
  have m2: "squares_wide m' = W" "squares_high m' = H" unfolding m'_def using mk by simp_all
  have fw: "0 \<le> d * field_weight" using d by (simp add: field_weight_def)
  have m4: "\<forall>i < W. \<forall>j < H. 0 \<le> danger_of m' i j"
  proof (intro allI impI)
    fix i j assume i: "i < W" and j: "j < H"
    have "0 \<le> danger_of (ds ! k) i j" using nn k i j mk by (simp add: space_nonneg_def)
    then show "0 \<le> danger_of m' i j"
      unfolding m'_def using spread_cell[OF mk(1), of i j] i j mk fw by simp
  qed
  show "space_ok ds' W H" "space_nonneg ds'"
    unfolding e using slice_update_inv[OF ok nn k m1 m2 m4] by simp_all
  show "\<forall>s. s \<noteq> k \<longrightarrow> ds' ! s = ds ! s" by (simp add: e)
qed


lemma slice_index_walk:
  assumes "0 \<le> t" "t \<le> int look_ahead"
  shows "look_behind \<le> slice_index t"
  using slice_index_nat[of t] assms by simp

lemma adjust_danger_nonneg:
  assumes "adjust_danger ratings t = Some a" "\<forall>r\<in>set ratings. 0 \<le> r"
  shows "0 \<le> a"
  using assms by (auto simp: adjust_danger_def split: if_splits)

lemma est_ok_written:
  assumes "est_ok e" "est_danger e > - EPSILON"
  shows "0 \<le> est_danger e"
  using assms by (auto simp: est_ok_def EPSILON_def)

lemma walk_inv:
  assumes "walk_estimates ratings bearing ests t ds = Some (t', ds')"
    and "space_ok ds W H" and "space_nonneg ds"
    and "\<forall>r\<in>set ratings. 0 \<le> r" and "\<forall>e\<in>set ests. est_ok e" and "0 \<le> t"
  shows "space_ok ds' W H \<and> space_nonneg ds' \<and> (\<forall>s < look_behind. ds' ! s = ds ! s) \<and> t \<le> t'"
  using assms
proof (induction ests arbitrary: t ds)
  case Nil
  then show ?case by simp
next
  case (Cons e rest)
  note ok = Cons.prems(2) and nn = Cons.prems(3) and rt = Cons.prems(4) and t0 = Cons.prems(6)
  have rest_ok: "\<forall>e\<in>set rest. est_ok e" and e_ok: "est_ok e" using Cons.prems(5) by simp_all
  show ?case
  proof (cases "t \<le> int look_ahead")
    case False
    then have "walk_estimates ratings bearing rest t ds = Some (t', ds')"
      using Cons.prems(1) by simp
    then show ?thesis using Cons.IH[OF _ ok nn rt rest_ok t0] by blast
  next
    case True
    have ne: "ds \<noteq> []" using ok by (auto simp: space_ok_def slice_count_def)
    show ?thesis
    proof (cases "legal_estimate ds e")
      case False
      then have "walk_estimates ratings bearing rest (t + 1) ds = Some (t', ds')"
        using Cons.prems(1) True ne by simp
      moreover have "0 \<le> t + 1" using t0 by simp
      ultimately have "space_ok ds' W H \<and> space_nonneg ds' \<and> (\<forall>s < look_behind. ds' ! s = ds ! s)
           \<and> t + 1 \<le> t'"
        using Cons.IH[OF _ ok nn rt rest_ok] by blast
      then show ?thesis by simp
    next
      case c: True
      define k where "k = slice_index t"
      define px where "px = c_unsigned (est_x e)"
      define py where "py = c_unsigned (est_y e)"
      from Cons.prems(1) True ne c
      obtain a ds1 ds2 where a: "adjust_danger ratings t = Some a"
        and s1: "on_slice ds k (\<lambda>m. map_add_danger_at m (unat px) (unat py) (est_danger e * a)) = Some ds1"
        and s2: "set_danger_field bearing (est_danger e * a) px py k ds1 = Some ds2"
        and w: "walk_estimates ratings bearing rest t ds2 = Some (t', ds')"
        by (auto simp: Let_def k_def px_def py_def split: option.splits)
      have d: "0 \<le> est_danger e * a"
        using adjust_danger_nonneg[OF a rt] est_ok_written[OF e_ok] c by (simp add: legal_estimate_def)
      note i1 = on_slice_add_inv[OF s1 ok nn d]
      note i2 = set_danger_field_inv[OF s2 i1(1) i1(2) d]
      have i3: "space_ok ds' W H \<and> space_nonneg ds' \<and> (\<forall>s < look_behind. ds' ! s = ds2 ! s) \<and> t \<le> t'"
        by (rule Cons.IH[OF w i2(1) i2(2) rt rest_ok t0])
      have kb: "look_behind \<le> k" unfolding k_def by (rule slice_index_walk[OF t0 True])
      have "\<forall>s < look_behind. ds2 ! s = ds ! s" using i1(3) i2(3) kb by auto
      then show ?thesis using i3 by simp
    qed
  qed
qed


lemma placeDanger_est_ok:
  assumes "\<forall>x\<in>set fut. est_ok x" "0 \<le> d" "d \<le> 1"
  shows "\<forall>x\<in>set (placeDanger angle fut c ot px py d). est_ok x"
proof -
  obtain c1 c2 where "placeDanger angle fut c ot px py d =
     fut @ [estimate_of (fst c1) (snd c1) (ceiling_clamp d),
          estimate_of (fst c2) (snd c2) (ceiling_clamp (1 - d))]"
    using placeDanger_append by blast
  moreover have "0 \<le> ceiling_clamp d" "0 \<le> ceiling_clamp (1 - d)"
    using assms(2,3) ceiling_clamp_range[of d] ceiling_clamp_range[of "1 - d"] by simp_all
  ultimately show ?thesis using assms(1) by (simp add: est_ok_def)
qed

lemma project_step_est_ok:
  assumes "x1 \<noteq> x2 \<or> y1 \<noteq> y2" "\<forall>x\<in>set fut. est_ok x"
  shows "\<forall>x\<in>set (project_step fut x1 y1 x2 y2). est_ok x"
  unfolding project_step_def Let_def
  using step_displacement_range[OF assms(1)] by (intro placeDanger_est_ok[OF assms(2)]) simp_all

lemma time_marker_ok: "est_ok time_marker"
  by (simp add: est_ok_def time_marker_def)

lemma dangerRecurse_est_ok:
  assumes "\<forall>x\<in>set fut. est_ok x"
  shows "(\<forall>x\<in>set (fst (dangerRecurse e destination fut t)). est_ok x)
       \<and> t \<le> snd (dangerRecurse e destination fut t)"
  using assms
proof (induction "manhattan e destination" arbitrary: e fut t rule: less_induct)
  case less
  show ?case
  proof (cases "est_x e = fst destination \<and> est_y e = snd destination")
    case True
    have "dangerRecurse e destination fut t = (fut, t)"
      by (subst dangerRecurse_unfold) (simp add: True)
    then show ?thesis using less.prems by simp
  next
    case False
    define placed where "placed = project_step fut (est_x e) (est_y e) (fst destination) (snd destination)"
    define e1 where "e1 = placed ! length fut"
    have nd: "est_x e \<noteq> fst destination \<or> est_y e \<noteq> snd destination" using False by blast
    have lt: "manhattan e1 destination < manhattan e destination"
      unfolding e1_def placed_def by (rule manhattan_first_cell[OF nd])
    have r: "dangerRecurse e destination fut t = dangerRecurse e1 destination (placed @ [time_marker]) (t + 1)"
      by (subst dangerRecurse_unfold) (simp add: False e1_def placed_def)
    have "\<forall>x\<in>set placed. est_ok x"
      unfolding placed_def by (rule project_step_est_ok[OF nd less.prems])
    then have "\<forall>x\<in>set (placed @ [time_marker]). est_ok x" by (simp add: time_marker_ok)
    then have "(\<forall>x\<in>set (fst (dangerRecurse e1 destination (placed @ [time_marker]) (t + 1))). est_ok x)
       \<and> t + 1 \<le> snd (dangerRecurse e1 destination (placed @ [time_marker]) (t + 1))"
      by (rule less.hyps[OF lt])
    then show ?thesis unfolding r by simp
  qed
qed

lemma beyond_goal_est_ok:
  assumes "\<forall>x\<in>set fut. est_ok x"
  shows "\<forall>x\<in>set (beyond_goal angle nb fut x2 y2). est_ok x"
proof -
  define co where "co = closest_and_other angle (neighoboringAngles angle nb)"
  define f1 where "f1 = placeDanger angle fut (fst co) (snd co) x2 y2 1 @ [time_marker]"
  define f2 where "f2 = placeDanger angle f1 (fst co) (snd co)
                              (est_x (f1 ! (length f1 - 3))) (est_y (f1 ! (length f1 - 3))) 1
                            @ [time_marker]"
  have res: "beyond_goal angle nb fut x2 y2 = placeDanger angle f2 (fst co) (snd co)
                              (est_x (f2 ! (length f2 - 3))) (est_y (f2 ! (length f2 - 3))) 1"
    by (simp add: beyond_goal_def Let_def co_def f1_def f2_def)
  have k1: "\<forall>x\<in>set f1. est_ok x"
    unfolding f1_def using placeDanger_est_ok[OF assms, of 1] by (simp add: time_marker_ok)
  have k2: "\<forall>x\<in>set f2. est_ok x"
    unfolding f2_def using placeDanger_est_ok[OF k1, of 1] by (simp add: time_marker_ok)
  show ?thesis unfolding res using placeDanger_est_ok[OF k2, of 1] by simp
qed

lemma project_leg_est_ok:
  "(\<forall>x\<in>set (fst (project_leg current destination b t)). est_ok x)
   \<and> t \<le> snd (project_leg current destination b t)"
proof -
  define x1 where "x1 = getX current"
  define x2 where "x2 = getX destination"
  define y1 where "y1 = getY current"
  define y2 where "y2 = getY destination"
  show ?thesis
  proof (cases "xDistance_of x1 x2 = 0 \<and> xDistance_of y1 y2 = 0")
    case True
    then have "project_leg current destination b t = ([], t)"
      by (simp add: project_leg_def Let_def x1_def x2_def y1_def y2_def)
    then show ?thesis by simp
  next
    case False
    then have nd: "x1 \<noteq> x2 \<or> y1 \<noteq> y2" by (auto simp: xDistance_of_def)
    define f0 where "f0 = project_step [] x1 y1 x2 y2 @ [time_marker]"
    define start where "start = (if est_danger (f0 ! 1) > 3 / 10 then f0 ! 1 else f0 ! 0)"
    define rec where "rec = dangerRecurse start (x2, y2) f0 (t + 1)"
    define nb where "nb = neighoboringAngles (angle_to_waypoint x1 y1 x2 y2) (0, 0)"
    have br: "(if est_danger (f0 ! 1) > 3 / 10
                          then dangerRecurse (f0 ! 1) (x2, y2) f0 (t + 1)
                          else dangerRecurse (f0 ! 0) (x2, y2) f0 (t + 1)) = rec"
      by (simp add: rec_def start_def)
    have res: "project_leg current destination b t = (beyond_goal b nb (fst rec) x2 y2, snd rec)"
      unfolding project_leg_def Let_def x1_def[symmetric] x2_def[symmetric]
        y1_def[symmetric] y2_def[symmetric] f0_def[symmetric] nb_def[symmetric] br
      by (simp only: False if_False)
    have "\<forall>x\<in>set (project_step [] x1 y1 x2 y2). est_ok x"
      by (rule project_step_est_ok[OF nd]) simp
    then have k0: "\<forall>x\<in>set f0. est_ok x" by (simp add: f0_def time_marker_ok)
    have k: "(\<forall>x\<in>set (fst rec). est_ok x) \<and> t + 1 \<le> snd rec"
      unfolding rec_def by (rule dangerRecurse_est_ok[OF k0])
    show ?thesis unfolding res using beyond_goal_est_ok[of "fst rec"] k by simp
  qed
qed

lemma calculate_future_pos_est_ok:
  "(\<forall>x\<in>set (fst (calculate_future_pos plane t)). est_ok x)
   \<and> t \<le> snd (calculate_future_pos plane t)"
  unfolding calculate_future_pos_def using project_leg_est_ok by simp


definition grid_inv :: "danger_grid \<Rightarrow> nat \<Rightarrow> nat \<Rightarrow> bool" where
  "grid_inv dg W H \<longleftrightarrow>
     space_ok (danger_space dg) W H \<and> space_nonneg (danger_space dg)
     \<and> (\<forall>r\<in>set (danger_ratings dg). 0 \<le> r) \<and> 0 \<le> plane_danger dg"

lemma fill_plane_inv:
  assumes f: "fill_plane plane_id p dg = Some dg'" and inv: "grid_inv dg W H"
  shows "grid_inv dg' W H \<and> (\<forall>s < look_behind. danger_space dg' ! s = danger_space dg ! s)"
proof (cases "getId p \<noteq> sint plane_id")
  case False
  then have "dg' = dg" using f by (simp add: fill_plane_def)
  then show ?thesis using inv by simp
next
  case True
  note ok = inv[unfolded grid_inv_def, THEN conjunct1]
    and nn = inv[unfolded grid_inv_def, THEN conjunct2, THEN conjunct1]
    and rt = inv[unfolded grid_inv_def, THEN conjunct2, THEN conjunct2, THEN conjunct1]
    and pd = inv[unfolded grid_inv_def, THEN conjunct2, THEN conjunct2, THEN conjunct2]
  define avoid where "avoid = calculate_future_pos p 0"
  define goal where "goal = calculate_future_pos p (snd avoid)"
  from f True obtain ds0 t1 ds1 t2 ds2 where
    s0: "on_slice (danger_space dg) (0 + look_behind)
                (\<lambda>m. map_add_danger_at m
                        (unat (c_unsigned (getX (getLocation p))))
                        (unat (c_unsigned (getY (getLocation p))))
                        (plane_danger dg)) = Some ds0"
    and w1: "walk_estimates (danger_ratings dg) (getBearing p) (fst avoid) 1 ds0 = Some (t1, ds1)"
    and w2: "walk_estimates (danger_ratings dg) (getBearing p) (fst goal) (snd avoid + 1) ds1 = Some (t2, ds2)"
    and e: "dg' = dg\<lparr>danger_space := ds2\<rparr>"
    by (auto simp: fill_plane_def Let_def split_beta avoid_def goal_def split: option.splits)
  note i0 = on_slice_add_inv[OF s0 ok nn pd]
  have a_ok: "\<forall>x\<in>set (fst avoid). est_ok x" and a_t: "0 \<le> snd avoid"
    using calculate_future_pos_est_ok[of p 0] by (simp_all add: avoid_def)
  have g_ok: "\<forall>x\<in>set (fst goal). est_ok x"
    using calculate_future_pos_est_ok[of p "snd avoid"] by (simp add: goal_def)
  have i1: "space_ok ds1 W H \<and> space_nonneg ds1 \<and> (\<forall>s < look_behind. ds1 ! s = ds0 ! s) \<and> 1 \<le> t1"
    by (rule walk_inv[OF w1 i0(1) i0(2) rt a_ok]) simp
  have i2: "space_ok ds2 W H \<and> space_nonneg ds2 \<and> (\<forall>s < look_behind. ds2 ! s = ds1 ! s) \<and> snd avoid + 1 \<le> t2"
    using a_t by (intro walk_inv[OF w2 _ _ rt g_ok]) (use i1 in simp_all)
  have "\<forall>s < look_behind. ds2 ! s = danger_space dg ! s"
    using i0(3) i1 i2 by auto
  then show ?thesis using i2 rt pd by (simp add: e grid_inv_def)
qed

lemma fill_planes_inv:
  assumes "fill_planes plane_id ps dg = Some dg'" and "grid_inv dg W H"
  shows "grid_inv dg' W H \<and> (\<forall>s < look_behind. danger_space dg' ! s = danger_space dg ! s)"
  using assms
proof (induction ps arbitrary: dg)
  case Nil
  then show ?case by simp
next
  case (Cons p ps)
  from Cons.prems(1) obtain dg1 where f: "fill_plane plane_id p dg = Some dg1"
    and r: "fill_planes plane_id ps dg1 = Some dg'"
    by (auto split: option.splits)
  note i1 = fill_plane_inv[OF f Cons.prems(2)]
  note i2 = Cons.IH[OF r conjunct1[OF i1]]
  show ?case using i1 i2 by simp
qed

lemma map_ctor_Some:
  assumes "map_ctor w h res = Some set_up"
  shows "map_ok set_up"
    and "\<forall>i < squares_wide set_up. \<forall>j < squares_high set_up. danger_of set_up i j = 0"
  using assms
  by (auto simp: map_ctor_def Let_def map_ok_def danger_of_def grid_square_ctor_def split: if_splits)

lemma fresh_space:
  assumes "map_ok m" "\<forall>i < squares_wide m. \<forall>j < squares_high m. danger_of m i j = 0"
  defines "ds \<equiv> replicate slice_count m"
  shows "space_ok ds (squares_wide m) (squares_high m)" "space_nonneg ds"
    "\<forall>s < look_behind. ds ! s = m"
proof -
  have len: "length ds = slice_count" unfolding ds_def by (rule length_replicate)
  have n: "ds ! s = m" if "s < length ds" for s
    using that unfolding ds_def by (simp only: length_replicate nth_replicate)
  show "space_ok ds (squares_wide m) (squares_high m)"
    unfolding space_ok_def using len n assms(1) by simp
  show "space_nonneg ds"
    unfolding space_nonneg_def using n assms(2) by simp
  show "\<forall>s < look_behind. ds ! s = m" using n len by (simp add: slice_count_def)
qed

lemma set_danger_scale_aircraft: "aircraft (set_danger_scale dg) = aircraft dg"
  by (simp add: set_danger_scale_def)

lemma danger_grid_ctor_inv:
  assumes "danger_grid_ctor fleet w h res plane_id = Some dg"
  obtains set_up where "map_ctor w h res = Some set_up"
    "grid_inv dg (squares_wide set_up) (squares_high set_up)"
    "\<forall>s < look_behind. danger_space dg ! s = set_up"
proof -
  from assms obtain set_up where m: "map_ctor w h res = Some set_up"
    by (auto simp: danger_grid_ctor_def Let_def split: option.splits)
  define pd where "pd = sqrt (real (unat (find_width_in_squares w h res * find_width_in_squares w h res
      + find_height_in_squares w h res * find_height_in_squares w h res))) * (5 / 2)"
  define dg0 where "dg0 = set_danger_scale
                  \<lparr>danger_ratings = [],
                   aircraft = fleet,
                   danger_space = replicate slice_count set_up,
                   map_res = res,
                   dist_map = None,
                   distance_costs_initialized = False,
                   plane_danger = pd\<rparr>"
  have f: "fill_planes plane_id fleet dg0 = Some dg"
    using assms m by (simp add: danger_grid_ctor_def Let_def fill_danger_space_def dg0_def pd_def
        set_danger_scale_aircraft)
  have pd0: "0 \<le> pd" unfolding pd_def by (intro mult_nonneg_nonneg real_sqrt_ge_zero of_nat_0_le_iff) simp
  have ds: "danger_space dg0 = replicate slice_count set_up"
    and rs: "danger_ratings dg0 = replicate (look_behind + look_ahead + 2) pd"
    and pdd: "plane_danger dg0 = pd"
    by (simp_all add: dg0_def set_danger_scale_def)
  note ms = map_ctor_Some[OF m]
  note fs = fresh_space[OF ms]
  have "\<forall>r\<in>set (replicate (look_behind + look_ahead + 2) pd). 0 \<le> r"
    using pd0 by (simp only: set_replicate_conv_if split: if_splits) simp
  then have inv0: "grid_inv dg0 (squares_wide set_up) (squares_high set_up)"
    unfolding grid_inv_def ds rs pdd using fs(1,2) pd0 by blast
  note i = fill_planes_inv[OF f inv0]
  have "\<forall>s < look_behind. danger_space dg ! s = set_up"
    using i fs(3) unfolding ds by simp
  then show thesis using that[OF m conjunct1[OF i]] by blast
qed

lemma get_danger_at_in_grid:
  assumes ok: "space_ok (danger_space dg) W H"
    and x: "x < dg_get_width_in_squares dg" and y: "y < dg_get_height_in_squares dg"
    and s: "- int look_behind \<le> seconds" "seconds \<le> int look_ahead"
  shows "nat (seconds + int look_behind) < length (danger_space dg)"
    and "x < W" and "y < H"
    and "get_danger_at dg x y seconds
       = Some (danger_of (danger_space dg ! nat (seconds + int look_behind)) x y)"
proof -
  define k where "k = nat (seconds + int look_behind)"
  have len: "length (danger_space dg) = slice_count"
    using ok by (simp add: space_ok_def)
  show k: "nat (seconds + int look_behind) < length (danger_space dg)"
    using s len by (simp add: slice_count_def)
  have "0 < slice_count" by (simp add: slice_count_def)
  then have z: "squares_wide (danger_space dg ! 0) = W" "squares_high (danger_space dg ! 0) = H"
    using ok len by (simp_all add: space_ok_def)
  show xw: "x < W" and yh: "y < H"
    using x y z
    by (simp_all add: dg_get_width_in_squares_def dg_get_height_in_squares_def
        get_width_in_squares_def get_height_in_squares_def)
  have mk: "map_ok (danger_space dg ! k)" "squares_wide (danger_space dg ! k) = W"
    "squares_high (danger_space dg ! k) = H"
    using ok k by (simp_all add: space_ok_def k_def)
  have iv: "in_vectors (danger_space dg ! k) x y"
    using mk xw yh by (simp add: in_vectors_def map_ok_def)
  show "get_danger_at dg x y seconds
       = Some (danger_of (danger_space dg ! nat (seconds + int look_behind)) x y)"
    using k iv by (simp add: get_danger_at_def slice_index_nat[OF s] map_get_danger_at_def
        danger_of_def k_def)
qed


lemma project_leg_at_destination:
  assumes "getX current = getX destination" "getY current = getY destination"
  shows "project_leg current destination b t = ([], t)"
  using assms by (simp add: project_leg_def xDistance_of_def)

section \<open>Two small grids\<close>

text \<open>
  A grid of two squares side by side and a grid of two by two squares, on which the
  operations are evaluated. \<open>strip_map a b\<close> is the map two squares wide and one
  square high whose squares \<open>(0, 0)\<close> and \<open>(1, 0)\<close> hold the dangers \<open>a\<close> and \<open>b\<close>;
  \<open>strip_space f g\<close> is the danger space whose slice \<open>k\<close> is \<open>strip_map (f k) (g k)\<close>,
  and \<open>parked_plane\<close> is an aircraft that stands on its destination.
\<close>

definition strip_map :: "real \<Rightarrow> real \<Rightarrow> map_t" where
  "strip_map a b = \<lparr>the_map = [[\<lparr>sq_planes = [], sq_danger = a\<rparr>], [\<lparr>sq_planes = [], sq_danger = b\<rparr>]],
     map_width = 2, map_height = 1, map_resolution = 1, squares_wide = 2, squares_high = 1\<rparr>"

lemma map_ctor_strip: "map_ctor 2 1 1 = Some (strip_map 0 0)"
  by (simp add: map_ctor_def EPSILON_def c_trunc_def Let_def strip_map_def grid_square_ctor_def
      numeral_2_eq_2)

lemma strip_get:
  "map_get_danger_at (strip_map a b) 0 0 = Some a"
  "map_get_danger_at (strip_map a b) (Suc 0) 0 = Some b"
  by (simp_all add: map_get_danger_at_def in_vectors_def strip_map_def)

lemma strip_set:
  "map_set_danger_at (strip_map a b) 0 0 v = Some (strip_map v b)"
  "map_set_danger_at (strip_map a b) (Suc 0) 0 v = Some (strip_map a v)"
  by (simp_all add: map_set_danger_at_def in_vectors_def strip_map_def update_square_def)

lemma strip_add: "map_add_danger_at (strip_map a b) 0 0 v = Some (strip_map (a + v) b)"
  by (simp add: map_add_danger_at_def in_vectors_def strip_map_def update_square_def)

definition strip_space :: "(nat \<Rightarrow> real) \<Rightarrow> (nat \<Rightarrow> real) \<Rightarrow> map_t list" where
  "strip_space f g = map (\<lambda>k. strip_map (f k) (g k)) [0 ..< slice_count]"

lemma strip_space_nth: "k < slice_count \<Longrightarrow> strip_space f g ! k = strip_map (f k) (g k)"
  by (simp add: strip_space_def)

lemma strip_space_len: "length (strip_space f g) = slice_count"
  by (simp add: strip_space_def)

lemma strip_space_update:
  assumes "k < slice_count"
  shows "(strip_space f g)[k := strip_map v (g k)] = strip_space (f(k := v)) g"
    and "(strip_space f g)[k := strip_map (f k) v] = strip_space f (g(k := v))"
  by (rule nth_equalityI; use assms in \<open>auto simp: strip_space_len strip_space_nth nth_list_update\<close>)+

lemma strip_space_replicate: "replicate slice_count (strip_map a b) = strip_space (\<lambda>k. a) (\<lambda>k. b)"
  by (rule nth_equalityI) (auto simp: strip_space_len strip_space_nth)

lemma blend_strip:
  assumes "t < slice_count"
  shows "blend_cell (strip_space f g) (strip_map d0 d1) adj 0 0 t (strip_space a b)
       = Some (strip_space (if f t > EPSILON then a(t := adj * f t + d0) else a) b)"
    and "blend_cell (strip_space f g) (strip_map d0 d1) adj (Suc 0) 0 t (strip_space a b)
       = Some (strip_space a (if g t > EPSILON then b(t := adj * g t + d1) else b))"
  using assms
  by (simp_all add: blend_cell_def strip_space_len strip_space_nth strip_get on_slice_def strip_set
      strip_space_update)

lemma blend_loop_strip_west:
  assumes "\<forall>t \<in> set ts. t < slice_count" "distinct ts"
  shows "for_each ts (blend_cell (strip_space f g) (strip_map d0 d1) adj 0 0) (strip_space a b)
       = Some (strip_space (\<lambda>k. if k \<in> set ts \<and> f k > EPSILON then adj * f k + d0 else a k) b)"
  using assms
proof (induction ts arbitrary: a)
  case Nil
  then show ?case by simp
next
  case (Cons t ts)
  have t: "t < slice_count" using Cons.prems by simp
  have r: "\<forall>t \<in> set ts. t < slice_count" "distinct ts" "t \<notin> set ts"
    using Cons.prems by simp_all
  have "(\<lambda>k. if k \<in> set ts \<and> f k > EPSILON then adj * f k + d0
                else (if f t > EPSILON then a(t := adj * f t + d0) else a) k)
      = (\<lambda>k. if k \<in> set (t # ts) \<and> f k > EPSILON then adj * f k + d0 else a k)"
    using r(3) by (auto simp: fun_eq_iff)
  then show ?case
    using Cons.IH[OF r(1,2), of "if f t > EPSILON then a(t := adj * f t + d0) else a"]
    by (simp add: blend_strip(1)[OF t])
qed

lemma blend_loop_strip_east:
  assumes "\<forall>t \<in> set ts. t < slice_count" "distinct ts"
  shows "for_each ts (blend_cell (strip_space f g) (strip_map d0 d1) adj (Suc 0) 0) (strip_space a b)
       = Some (strip_space a (\<lambda>k. if k \<in> set ts \<and> g k > EPSILON then adj * g k + d1 else b k))"
  using assms
proof (induction ts arbitrary: b)
  case Nil
  then show ?case by simp
next
  case (Cons t ts)
  have t: "t < slice_count" using Cons.prems by simp
  have r: "\<forall>t \<in> set ts. t < slice_count" "distinct ts" "t \<notin> set ts"
    using Cons.prems by simp_all
  have "(\<lambda>k. if k \<in> set ts \<and> g k > EPSILON then adj * g k + d1
                else (if g t > EPSILON then b(t := adj * g t + d1) else b) k)
      = (\<lambda>k. if k \<in> set (t # ts) \<and> g k > EPSILON then adj * g k + d1 else b k)"
    using r(3) by (auto simp: fun_eq_iff)
  then show ?case
    using Cons.IH[OF r(1,2), of "if g t > EPSILON then b(t := adj * g t + d1) else b"]
    by (simp add: blend_strip(2)[OF t])
qed

lemma slice_index_17: "slice_index 17 = 19"
  by (simp add: slice_index_def c_unsigned_def look_behind_def)

lemma slice_index_20: "slice_index 20 = 22"
  by (simp add: slice_index_def c_unsigned_def look_behind_def)

definition strip_grid :: "Plane list \<Rightarrow> (nat \<Rightarrow> real) \<Rightarrow> (nat \<Rightarrow> real) \<Rightarrow> danger_grid" where
  "strip_grid ps f g =
     \<lparr>danger_ratings = replicate (look_behind + look_ahead + 2) (sqrt 5 * (5 / 2)),
      aircraft = ps,
      danger_space = strip_space f g,
      map_res = 1,
      dist_map = None,
      distance_costs_initialized = False,
      plane_danger = sqrt 5 * (5 / 2)\<rparr>"

lemma strip_squares:
  "find_width_in_squares 2 1 1 = 2" "find_height_in_squares 2 1 1 = 1"
  by (simp_all add: find_width_in_squares_def find_height_in_squares_def c_unsigned_def c_trunc_def)

lemma strip_plane_danger:
  "sqrt (real (unat (find_width_in_squares 2 1 1 * find_width_in_squares 2 1 1
                      + find_height_in_squares 2 1 1 * find_height_in_squares 2 1 1))) = sqrt 5"
  unfolding strip_squares by simp

lemma ctor_strip_start:
  "danger_grid_ctor ps 2 1 1 0 = fill_planes 0 ps (strip_grid ps (\<lambda>k. 0) (\<lambda>k. 0))"
  unfolding danger_grid_ctor_def Let_def strip_plane_danger map_ctor_strip
  by (simp add: fill_danger_space_def set_danger_scale_def strip_grid_def strip_space_replicate)

lemma ctor_strip: "danger_grid_ctor [] 2 1 1 0 = Some (strip_grid [] (\<lambda>k. 0) (\<lambda>k. 0))"
  by (simp add: ctor_strip_start)

lemma add_strip:
  assumes "slice_index s < slice_count"
  shows "add_danger_at (strip_grid ps f g) 0 0 s v
       = Some (strip_grid ps (f(slice_index s := f (slice_index s) + v)) g)"
  using assms
  by (simp add: add_danger_at_def on_slice_def strip_grid_def strip_space_len strip_space_nth strip_add
      strip_space_update)

lemma get_strip:
  assumes "slice_index s < slice_count"
  shows "get_danger_at (dg\<lparr>danger_space := strip_space f g\<rparr>) 0 0 s = Some (f (slice_index s))"
  using assms by (simp add: get_danger_at_def strip_space_len strip_space_nth strip_get)

lemma for_each_single: "for_each [0 ..< 1] body s = body 0 s"
  by (simp split: option.splits)

lemma for_each_pair:
  "for_each [0 ..< 2] body s = (case body 0 s of None \<Rightarrow> None | Some s' \<Rightarrow> body (Suc 0) s')"
proof -
  have "[0 ..< 2] = [0, Suc 0]" by (simp add: upt_rec)
  then show ?thesis by (simp split: option.splits)
qed

lemma strip_space_dims:
  "get_width_in_squares (strip_space f g ! 0) = 2" "get_height_in_squares (strip_space f g ! 0) = 1"
  by (simp_all add: strip_space_nth slice_count_def get_width_in_squares_def
      get_height_in_squares_def strip_map_def)

lemma strip_grid_space: "danger_space (strip_grid ps f g) = strip_space f g"
  by (simp add: strip_grid_def)

lemma strip_grid_dims:
  "dg_get_width_in_squares (strip_grid ps f g) = 2" "dg_get_height_in_squares (strip_grid ps f g) = 1"
  by (simp_all add: dg_get_width_in_squares_def dg_get_height_in_squares_def strip_grid_space
        strip_space_dims)

lemma strip_goal_distance:
  "goal_distance (word_of_nat 0) (word_of_nat 0) 0 0 = 0"
  "goal_distance (word_of_nat (Suc 0)) (word_of_nat 0) 0 0 = 1"
  by (simp_all add: goal_distance_def)

lemma distance_costs_strip:
  "calculate_distance_costs 0 0 adj (strip_grid ps f g)
     = Some ((strip_grid ps f g)\<lparr>dist_map := Some (strip_map 0 1), distance_costs_initialized := True,
          danger_space := strip_space
             (\<lambda>k. if k < look_ahead \<and> f k > EPSILON then adj * f k + 0 else 0)
             (\<lambda>k. if k < look_ahead \<and> g k > EPSILON then adj * g k + 1 else 1)\<rparr>)"
proof -
  note w = strip_grid_dims[of ps f g]
  have r: "get_res (strip_grid ps f g) = 1"
    by (simp add: get_res_def strip_grid_space strip_space_nth slice_count_def get_resolution_def
        strip_map_def c_trunc_def)
  have ne: "strip_space f g \<noteq> []"
    using strip_space_len[of f g] by (auto simp: slice_count_def)
  have la: "\<forall>t \<in> set [0 ..< look_ahead]. t < slice_count" by (simp add: slice_count_def)
  have dl: "distinct [0 ..< look_ahead]" by simp
  have bw: "for_each [0 ..< look_ahead] (blend_cell (strip_space f g) (strip_map 0 1) adj 0 0)
              (strip_space (\<lambda>k. 0) (\<lambda>k. 1))
       = Some (strip_space (\<lambda>k. if k < look_ahead \<and> f k > EPSILON then adj * f k + 0 else 0) (\<lambda>k. 1))"
    using blend_loop_strip_west[OF la dl, of f g 0 1 adj "\<lambda>k. 0" "\<lambda>k. 1"] by simp
  have be: "for_each [0 ..< look_ahead] (blend_cell (strip_space f g) (strip_map 0 1) adj (Suc 0) 0)
              (strip_space a (\<lambda>k. 1))
       = Some (strip_space a (\<lambda>k. if k < look_ahead \<and> g k > EPSILON then adj * g k + 1 else 1))" for a
    using blend_loop_strip_east[OF la dl, of f g 0 1 adj a "\<lambda>k. 1"] by simp
  have fill: "for_each [0 ..< 2] (\<lambda>crnt_x. for_each [0 ..< 1]
                        (\<lambda>crnt_y m. map_set_danger_at m crnt_x crnt_y
                                       (goal_distance (word_of_nat crnt_x) (word_of_nat crnt_y) 0 0)))
                     (strip_map 0 0) = Some (strip_map 0 1)"
    by (simp only: for_each_pair for_each_single strip_set strip_goal_distance option.case)
  have blend: "for_each [0 ..< 2] (\<lambda>crnt_x. for_each [0 ..< 1]
                                (\<lambda>crnt_y. for_each [0 ..< look_ahead]
                                   (\<lambda>crnt_t. blend_cell (strip_space f g) (strip_map 0 1) adj
                                                 crnt_x crnt_y crnt_t)))
                             (strip_space (\<lambda>k. 0) (\<lambda>k. 1))
       = Some (strip_space (\<lambda>k. if k < look_ahead \<and> f k > EPSILON then adj * f k + 0 else 0)
                (\<lambda>k. if k < look_ahead \<and> g k > EPSILON then adj * g k + 1 else 1))"
    by (simp only: for_each_pair for_each_single bw be option.case)
  have m: "map_ctor (real 2 * 1) (real 1 * 1) 1 = Some (strip_map 0 0)"
    using map_ctor_strip by simp
  show ?thesis
    unfolding calculate_distance_costs_def w r Let_def
    by (simp only: ne if_False m option.case fill
        strip_space_replicate strip_space_dims strip_grid_space blend)
qed

definition parked_plane:: Plane where
  "parked_plane = \<lparr>getId = 1,
     getLocation = \<lparr>getX = 0, getY = 0\<rparr>,
     getDestination = \<lparr>getX = 0, getY = 0\<rparr>,
     getFinalDestination = \<lparr>getX = 0, getY = 0\<rparr>,
     getBearing = 0, getBearingToDest = 0\<rparr>"

definition grid2 :: map_t where
  "grid2 = \<lparr>the_map = [[grid_square_ctor, grid_square_ctor], [grid_square_ctor, grid_square_ctor]],
     map_width = 2, map_height = 2, map_resolution = 1, squares_wide = 2, squares_high = 2\<rparr>"

lemma map_ctor_grid2: "map_ctor 2 2 1 = Some grid2"
  by (simp add: map_ctor_def EPSILON_def c_trunc_def Let_def grid2_def grid_square_ctor_def
      numeral_2_eq_2)

lemma grid2_ok: "map_ok grid2"
  by (simp add: map_ok_def grid2_def less_Suc_eq numeral_2_eq_2)

lemma unat_minus_one_32: "unat (- 1 :: 32 word) = 4294967295"
  by (simp add: unsigned_minus_1_eq_mask mask_eq_exp_minus_1)

lemma grid2_neighbours:
  "is_neighbour 0 0 1 1" "is_neighbour 0 0 1 0" "is_neighbour 0 0 0 1" "\<not> is_neighbour 0 0 0 0"
  by (simp_all add: is_neighbour_def neighbour_cells_def unat_minus_one_32)

lemma strip_on_slice_add:
  assumes "k < slice_count"
  shows "on_slice (strip_space f g) k (\<lambda>m. map_add_danger_at m 0 0 v)
           = Some (strip_space (f(k := f k + v)) g)"
  using assms
  by (simp add: on_slice_def strip_space_len strip_space_nth strip_add strip_space_update)

lemma parked_plane_fields:
  "getId parked_plane = 1"
  "getX (getLocation parked_plane) = 0" "getY (getLocation parked_plane) = 0"
  "getX (getDestination parked_plane) = 0" "getY (getDestination parked_plane) = 0"
  by (simp_all add: parked_plane_def)

lemma fill_parked:
  "fill_plane 0 parked_plane (strip_grid ps f g)
     = Some (strip_grid ps (f(look_behind := f look_behind + sqrt 5 * (5 / 2))) g)"
proof -
  have k: "look_behind < slice_count" by (simp add: slice_count_def)
  have e: "getX (getLocation parked_plane) = getX (getDestination parked_plane)"
    "getY (getLocation parked_plane) = getY (getDestination parked_plane)"
    by (simp_all add: parked_plane_fields)
  have c: "calculate_future_pos parked_plane 0 = ([], 0)"
    by (simp add: calculate_future_pos_def project_leg_at_destination[OF e])
  have pd: "plane_danger (strip_grid ps f g) = sqrt 5 * (5 / 2)" by (simp add: strip_grid_def)
  have s: "on_slice (danger_space (strip_grid ps f g)) (0 + look_behind)
             (\<lambda>m. map_add_danger_at m
                     (unat (c_unsigned (getX (getLocation parked_plane))))
                     (unat (c_unsigned (getY (getLocation parked_plane))))
                     (plane_danger (strip_grid ps f g)))
           = Some (strip_space (f(look_behind := f look_behind + sqrt 5 * (5 / 2))) g)"
    unfolding strip_grid_space pd
    by (simp add: parked_plane_fields c_unsigned_def strip_on_slice_add[OF k])
  show ?thesis
    unfolding fill_plane_def s by (simp add: c parked_plane_fields strip_grid_def)
qed

lemma ctor_parked:
  "danger_grid_ctor [parked_plane] 2 1 1 0
     = Some (strip_grid [parked_plane] ((\<lambda>k. 0)(look_behind := sqrt 5 * (5 / 2))) (\<lambda>k. 0))"
  by (simp add: ctor_strip_start fill_parked)

lemma get_strip_grid:
  assumes "slice_index s < slice_count"
  shows "get_danger_at (strip_grid ps f g) 0 0 s = Some (f (slice_index s))"
  using get_strip[OF assms, where dg="strip_grid ps f g" and f=f and g=g] by (simp add: strip_grid_def)

lemma slice_index_small:
  "slice_index 0 = 2" "slice_index (- 1) = 1" "slice_index (- 2) = 0"
  by (simp_all add: slice_index_def c_unsigned_def look_behind_def)



section \<open>The claims\<close>

subsection \<open>C1\<close>

text \<open>
  C1 says that in the walk of \<open>fill_danger_space\<close> an estimate whose coordinates lie
  outside the grid is skipped and leaves the counter \<open>t\<close> as it is, only the dividers
  advancing it. The code sends every estimate that fails the test of the inner \<open>if\<close>
  to the \<open>else\<close> branch, whose comment reads ``this estimate is only a timestamp
  marker'': the estimate \<open>(-1, 0, 0.4)\<close>, which is no divider, takes \<open>t\<close> from 1 to 2
  and leaves the danger space untouched.
\<close>

theorem walk_estimates_off_grid_advances_t:
  "estimate_of (- 1) 0 (2 / 5) \<noteq> time_marker
   \<and> walk_estimates ratings bearing [estimate_of (- 1) 0 (2 / 5)] 1 (m # ds) = Some (2, m # ds)"
  by (simp add: look_ahead_def legal_estimate_def time_marker_def)

subsection \<open>C2\<close>

text \<open>
  C2: for every projection step between two distinct points, the two fractions that
  \<open>placeDanger\<close> works with sum to 1 before the cut at the ceiling 0.4, the two
  estimates it appends carry the two fractions after the cut, and both values lie in
  \<open>[0, 0.4]\<close>. The same holds for the three calls beyond the goal, which pass the
  danger 1: the fractions are 1 and 0, the estimates carry 0.4 and 0.
\<close>

theorem placeDanger_mass_split:
  assumes "(x1, y1) \<noteq> (x2, y2)"
  shows "fst (mass_split (step_displacement x1 y1 x2 y2))
           + snd (mass_split (step_displacement x1 y1 x2 y2)) = 1
       \<and> (\<exists>c1 c2. project_step theFuture x1 y1 x2 y2 = theFuture @
             [estimate_of (fst c1) (snd c1) (ceiling_clamp (fst (mass_split (step_displacement x1 y1 x2 y2)))),
              estimate_of (fst c2) (snd c2) (ceiling_clamp (snd (mass_split (step_displacement x1 y1 x2 y2))))])
       \<and> 0 \<le> ceiling_clamp (fst (mass_split (step_displacement x1 y1 x2 y2)))
       \<and> ceiling_clamp (fst (mass_split (step_displacement x1 y1 x2 y2))) \<le> 4 / 10
       \<and> 0 \<le> ceiling_clamp (snd (mass_split (step_displacement x1 y1 x2 y2)))
       \<and> ceiling_clamp (snd (mass_split (step_displacement x1 y1 x2 y2))) \<le> 4 / 10
       \<and> fst (mass_split 1) + snd (mass_split 1) = 1
       \<and> (\<exists>c1 c2. placeDanger angle theFuture closest other_angle px py 1 = theFuture @
             [estimate_of (fst c1) (snd c1) (4 / 10), estimate_of (fst c2) (snd c2) 0])"
proof -
  define d where "d = step_displacement x1 y1 x2 y2"
  have nd: "x1 \<noteq> x2 \<or> y1 \<noteq> y2" using assms by simp
  have d: "1 / 2 \<le> d" "d \<le> 1" using step_displacement_range[OF nd] by (simp_all add: d_def)
  have 1: "fst (mass_split d) + snd (mass_split d) = 1" by (simp add: mass_split_def)
  have 2: "\<exists>c1 c2. project_step theFuture x1 y1 x2 y2 = theFuture @
             [estimate_of (fst c1) (snd c1) (ceiling_clamp (fst (mass_split d))),
              estimate_of (fst c2) (snd c2) (ceiling_clamp (snd (mass_split d)))]"
    unfolding project_step_def Let_def d_def[symmetric] mass_split_def fst_conv snd_conv
    by (rule placeDanger_append)
  have 3: "0 \<le> ceiling_clamp (fst (mass_split d)) \<and> ceiling_clamp (fst (mass_split d)) \<le> 4 / 10"
    using d ceiling_clamp_range[of d] by (simp add: mass_split_def)
  have 4: "0 \<le> ceiling_clamp (snd (mass_split d)) \<and> ceiling_clamp (snd (mass_split d)) \<le> 4 / 10"
    using d ceiling_clamp_range[of "1 - d"] by (simp add: mass_split_def)
  have 5: "fst (mass_split 1) + snd (mass_split 1) = 1" by (simp add: mass_split_def)
  have c: "ceiling_clamp 1 = 4 / 10" "ceiling_clamp (1 - 1) = 0"
    by (simp_all add: ceiling_clamp_def dangerCeiling_def)
  have 6: "\<exists>c1 c2. placeDanger angle theFuture closest other_angle px py 1 = theFuture @
             [estimate_of (fst c1) (snd c1) (4 / 10), estimate_of (fst c2) (snd c2) 0]"
    using placeDanger_append[of angle theFuture closest other_angle px py 1] unfolding c .
  show ?thesis unfolding d_def[symmetric] using 1 2 3 4 5 6 by blast
qed

theorem placeDanger_mass_split_witness:
  "(0::int, 1::int) \<noteq> (0, 0)
   \<and> fst (mass_split (step_displacement 0 1 0 0)) + snd (mass_split (step_displacement 0 1 0 0)) = 1
   \<and> project_step [] 0 1 0 0 = [estimate_of 0 0 (2 / 5), estimate_of (- 1) 0 0]
   \<and> ceiling_clamp (fst (mass_split (step_displacement 0 1 0 0))) = 2 / 5
   \<and> ceiling_clamp (snd (mass_split (step_displacement 0 1 0 0))) = 0"
proof -
  have h: "(0::int, 1::int) \<noteq> (0, 0)" by simp
  from placeDanger_mass_split[OF h, of "[]"] show ?thesis
    by (auto simp: project_step_due_north)
qed

subsection \<open>C3\<close>

text \<open>
  C3: \<open>dangerRecurse\<close> terminates for every starting point and destination, and it
  stops exactly when the current point is the destination. Termination is the
  termination proof of the function, with the Manhattan distance to the destination
  as the measure; so the function is total, and the number of steps is at most that
  distance. The call returns its arguments unchanged if and only if the point is the
  destination; otherwise it appends whole steps (two estimates and a divider each,
  one second per step), and the point of the last step, from which the recursion
  returns, is the destination.
\<close>

theorem dangerRecurse_stops_at_destination:
  "\<exists>new. dangerRecurse e destination theFuture time
            = (theFuture @ new, time + int (length new div 3))
      \<and> length new mod 3 = 0
      \<and> length new \<le> 3 * manhattan e destination
      \<and> (new = [] \<longleftrightarrow> (est_x e = fst destination \<and> est_y e = snd destination))
      \<and> (new \<noteq> [] \<longrightarrow>
            est_x (new ! (length new - 3)) = fst destination
          \<and> est_y (new ! (length new - 3)) = snd destination
          \<and> last new = time_marker)"
proof (induction "manhattan e destination" arbitrary: e theFuture time rule: less_induct)
  case less
  show ?case
  proof (cases "est_x e = fst destination \<and> est_y e = snd destination")
    case True
    have "dangerRecurse e destination theFuture time = (theFuture, time)"
      by (subst dangerRecurse_unfold) (simp add: True)
    then show ?thesis using True by (intro exI[of _ "[]"]) simp
  next
    case False
    define placed where "placed = project_step theFuture (est_x e) (est_y e) (fst destination) (snd destination)"
    define e1 where "e1 = placed ! length theFuture"
    have nd: "est_x e \<noteq> fst destination \<or> est_y e \<noteq> snd destination" using False by blast
    have lt: "manhattan e1 destination < manhattan e destination"
      unfolding e1_def placed_def by (rule manhattan_first_cell[OF nd])
    obtain c1 c2 d where pl: "placed = theFuture @ [estimate_of (fst c1) (snd c1) (ceiling_clamp d),
          estimate_of (fst c2) (snd c2) (ceiling_clamp (1 - d))]"
      unfolding placed_def project_step_def Let_def using placeDanger_append by blast
    define e2 where "e2 = estimate_of (fst c2) (snd c2) (ceiling_clamp (1 - d))"
    have pl': "placed = theFuture @ [e1, e2]" using pl by (simp add: e1_def e2_def)
    have "\<exists>new. dangerRecurse e1 destination (placed @ [time_marker]) (time + 1)
            = ((placed @ [time_marker]) @ new, (time + 1) + int (length new div 3))
      \<and> length new mod 3 = 0
      \<and> length new \<le> 3 * manhattan e1 destination
      \<and> (new = [] \<longleftrightarrow> (est_x e1 = fst destination \<and> est_y e1 = snd destination))
      \<and> (new \<noteq> [] \<longrightarrow>
            est_x (new ! (length new - 3)) = fst destination
          \<and> est_y (new ! (length new - 3)) = snd destination
          \<and> last new = time_marker)"
      by (rule less[OF lt])
    then obtain new' where n0: "dangerRecurse e1 destination (placed @ [time_marker]) (time + 1)
            = ((placed @ [time_marker]) @ new', (time + 1) + int (length new' div 3))
      \<and> length new' mod 3 = 0
      \<and> length new' \<le> 3 * manhattan e1 destination
      \<and> (new' = [] \<longleftrightarrow> (est_x e1 = fst destination \<and> est_y e1 = snd destination))
      \<and> (new' \<noteq> [] \<longrightarrow>
            est_x (new' ! (length new' - 3)) = fst destination
          \<and> est_y (new' ! (length new' - 3)) = snd destination
          \<and> last new' = time_marker)" ..
    note n = conjunct1[OF n0] conjunct1[OF conjunct2[OF n0]]
      conjunct1[OF conjunct2[OF conjunct2[OF n0]]]
      conjunct1[OF conjunct2[OF conjunct2[OF conjunct2[OF n0]]]]
      conjunct2[OF conjunct2[OF conjunct2[OF conjunct2[OF n0]]]]
    define new where "new = [e1, e2, time_marker] @ new'"
    have r: "dangerRecurse e destination theFuture time = dangerRecurse e1 destination (placed @ [time_marker]) (time + 1)"
      by (subst dangerRecurse_unfold) (simp add: False e1_def placed_def)
    have 1: "dangerRecurse e destination theFuture time = (theFuture @ new, time + int (length new div 3))"
      unfolding r n(1) using n(2) by (simp add: new_def pl')
    have 2: "length new mod 3 = 0" using n(2) by (simp add: new_def)
    have 3: "length new \<le> 3 * manhattan e destination" using n(3) lt by (simp add: new_def)
    have 4: "new = [] \<longleftrightarrow> (est_x e = fst destination \<and> est_y e = snd destination)"
      using False by (simp add: new_def)
    have 5: "est_x (new ! (length new - 3)) = fst destination
          \<and> est_y (new ! (length new - 3)) = snd destination \<and> last new = time_marker"
    proof (cases "new' = []")
      case True
      then show ?thesis using n(4) by (simp add: new_def)
    next
      case f: False
      then have "length new' \<noteq> 0" by simp
      then have "3 \<le> length new'" using n(2) by presburger
      then have "new ! (length new - 3) = new' ! (length new' - 3)"
        by (simp add: new_def nth_past_three)
      then show ?thesis using n(5) f by (simp add: new_def)
    qed
    show ?thesis by (rule exI[of _ new]) (use 1 2 3 4 5 in blast)
  qed
qed


theorem dangerRecurse_stops_at_destination_witness:
  "\<exists>new. dangerRecurse (estimate_of 0 1 (2 / 5)) (0, 0) [] 0 = (new, int (length new div 3))
     \<and> new \<noteq> []
     \<and> est_x (new ! (length new - 3)) = 0 \<and> est_y (new ! (length new - 3)) = 0
     \<and> last new = time_marker"
  using dangerRecurse_stops_at_destination[of "estimate_of 0 1 (2 / 5)" "(0, 0)" "[]" 0]
  by auto

subsection \<open>C4\<close>




subsection \<open>C5\<close>

text \<open>
  C5: a call of \<open>set_danger_field\<close> with danger \<open>d\<close> at \<open>(x, y)\<close> for the slice \<open>time\<close>
  adds \<open>d * field_weight\<close> to each of the eight neighbours of \<open>(x, y)\<close> that is a
  square of the grid, in that slice only, whatever the bearing: the call never fails
  on a slice of the danger space, every other square of the slice and every other
  slice keep their danger, and two bearings give the same result. The neighbours
  are taken modulo \<open>2^32\<close>, as the \<open>natural\<close> coordinates are; \<open>is_neighbour\<close> says
  that a square is one of the eight.
\<close>

theorem set_danger_field_all_round:
  assumes "time < length ds" and "map_ok (ds ! time)"
  shows "\<exists>ds'. set_danger_field bearing d px py time ds = Some ds'
           \<and> set_danger_field bearing' d px py time ds = Some ds'
           \<and> length ds' = length ds
           \<and> (\<forall>s. s \<noteq> time \<longrightarrow> ds' ! s = ds ! s)
           \<and> map_ok (ds' ! time)
           \<and> squares_wide (ds' ! time) = squares_wide (ds ! time)
           \<and> squares_high (ds' ! time) = squares_high (ds ! time)
           \<and> (\<forall>i j. i < squares_wide (ds ! time) \<longrightarrow> j < squares_high (ds ! time) \<longrightarrow>
                 danger_of (ds' ! time) i j =
                   danger_of (ds ! time) i j + (if is_neighbour px py i j then d * field_weight else 0))"
proof -
  define ds' where "ds' = ds[time := spread (ds ! time) (neighbour_cells px py) (d * field_weight)]"
  have t: "ds' ! time = spread (ds ! time) (neighbour_cells px py) (d * field_weight)"
    using assms(1) by (simp add: ds'_def)
  have 1: "set_danger_field bearing d px py time ds = Some ds'"
    and 2: "set_danger_field bearing' d px py time ds = Some ds'"
    using assms(1) by (simp_all add: set_danger_field_spread ds'_def)
  have 3: "length ds' = length ds" by (simp add: ds'_def)
  have 4: "\<forall>s. s \<noteq> time \<longrightarrow> ds' ! s = ds ! s" by (simp add: ds'_def)
  have 5: "map_ok (ds' ! time)" unfolding t by (rule spread_ok[OF assms(2)])
  have 6: "squares_wide (ds' ! time) = squares_wide (ds ! time)"
    "squares_high (ds' ! time) = squares_high (ds ! time)" unfolding t by simp_all
  have 7: "\<forall>i j. i < squares_wide (ds ! time) \<longrightarrow> j < squares_high (ds ! time) \<longrightarrow>
                 danger_of (ds' ! time) i j =
                   danger_of (ds ! time) i j + (if is_neighbour px py i j then d * field_weight else 0)"
    unfolding t by (simp add: spread_cell[OF assms(2)] neighbour_count)
  show ?thesis by (rule exI[of _ ds']) (use 1 2 3 4 5 6 7 in blast)
qed

theorem set_danger_field_all_round_witness:
  "\<exists>ds'. set_danger_field 90 1 0 0 0 [grid2] = Some ds'
     \<and> set_danger_field 0 1 0 0 0 [grid2] = Some ds'
     \<and> danger_of (ds' ! 0) 0 0 = 0
     \<and> danger_of (ds' ! 0) 1 0 = 7 / 10
     \<and> danger_of (ds' ! 0) 0 1 = 7 / 10
     \<and> danger_of (ds' ! 0) 1 1 = 7 / 10"
proof -
  have t: "(0::nat) < length [grid2]" and ok: "map_ok ([grid2] ! 0)"
    by (simp_all add: grid2_ok)
  have z: "danger_of grid2 i j = 0" if "i < 2" "j < 2" for i j
    using that by (auto simp: danger_of_def grid2_def grid_square_ctor_def less_Suc_eq numeral_2_eq_2)
  from set_danger_field_all_round[OF t ok, of 90 1 0 0 0]
  show ?thesis
    using grid2_neighbours z by (fastforce simp: grid2_def field_weight_def)
qed

subsection \<open>C6\<close>

text \<open>
  C6: when the current point of an aircraft is its destination, \<open>calculate_future_pos\<close>
  returns the empty vector at once and leaves \<open>time\<close> at 0, so no step of the recursion
  was taken; and the body of \<open>fill_danger_space\<close> for that aircraft does no more than
  add \<open>plane_danger\<close> at the square of the aircraft in the slice of second 0 (nothing at
  all for the owner of the grid).
\<close>

theorem at_destination_only_occupancy:
  assumes "getX (getLocation p) = getX (getDestination p)"
    and "getY (getLocation p) = getY (getDestination p)"
  shows "calculate_future_pos p 0 = ([], 0)
       \<and> fill_plane plane_id p dg =
           (if getId p \<noteq> sint plane_id
            then map_option (\<lambda>ds. dg\<lparr>danger_space := ds\<rparr>)
                   (on_slice (danger_space dg) look_behind
                      (\<lambda>m. map_add_danger_at m
                              (unat (c_unsigned (getX (getLocation p))))
                              (unat (c_unsigned (getY (getLocation p))))
                              (plane_danger dg)))
            else Some dg)"
proof
  show c: "calculate_future_pos p 0 = ([], 0)"
    by (simp add: calculate_future_pos_def project_leg_at_destination[OF assms])
  show "fill_plane plane_id p dg =
           (if getId p \<noteq> sint plane_id
            then map_option (\<lambda>ds. dg\<lparr>danger_space := ds\<rparr>)
                   (on_slice (danger_space dg) look_behind
                      (\<lambda>m. map_add_danger_at m
                              (unat (c_unsigned (getX (getLocation p))))
                              (unat (c_unsigned (getY (getLocation p))))
                              (plane_danger dg)))
            else Some dg)"
    by (simp add: fill_plane_def c Let_def split: option.splits)
qed

theorem at_destination_only_occupancy_witness:
  "getX (getLocation parked_plane) = getX (getDestination parked_plane)
   \<and> getY (getLocation parked_plane) = getY (getDestination parked_plane)
   \<and> calculate_future_pos parked_plane 0 = ([], 0)
   \<and> fill_plane 0 parked_plane (strip_grid [parked_plane] (\<lambda>k. 0) (\<lambda>k. 0))
       = Some (strip_grid [parked_plane] ((\<lambda>k. 0)(look_behind := sqrt 5 * (5 / 2))) (\<lambda>k. 0))"
proof -
  have e: "getX (getLocation parked_plane) = getX (getDestination parked_plane)"
    "getY (getLocation parked_plane) = getY (getDestination parked_plane)"
    by (simp_all add: parked_plane_fields)
  have k: "look_behind < slice_count" by (simp add: slice_count_def)
  have pd: "plane_danger (strip_grid [parked_plane] (\<lambda>k. 0) (\<lambda>k. 0)) = sqrt 5 * (5 / 2)"
    by (simp add: strip_grid_def)
  from at_destination_only_occupancy[OF e, of 0 "strip_grid [parked_plane] (\<lambda>k. 0) (\<lambda>k. 0)"]
  show ?thesis
    using e unfolding strip_grid_space pd
    by (simp add: parked_plane_fields c_unsigned_def strip_on_slice_add[OF k] strip_grid_def)
qed

subsection \<open>C7\<close>

text \<open>
  C7: on a danger grid as the constructor leaves it, \<open>get_danger_at\<close> returns a value,
  and one that is not negative, for every square of the grid and every second from
  \<open>-look_behind\<close> to \<open>look_ahead\<close>.
\<close>

theorem fresh_grid_nonnegative:
  assumes c: "danger_grid_ctor fleet w h res plane_id = Some dg"
    and x: "x < dg_get_width_in_squares dg" and y: "y < dg_get_height_in_squares dg"
    and s: "- int look_behind \<le> seconds" "seconds \<le> int look_ahead"
  shows "\<exists>v. get_danger_at dg x y seconds = Some v \<and> 0 \<le> v"
proof -
  obtain set_up where m: "map_ctor w h res = Some set_up"
    and inv: "grid_inv dg (squares_wide set_up) (squares_high set_up)"
    and past: "\<forall>s < look_behind. danger_space dg ! s = set_up"
    using c by (rule danger_grid_ctor_inv)
  have ok: "space_ok (danger_space dg) (squares_wide set_up) (squares_high set_up)"
    and nn: "space_nonneg (danger_space dg)"
    using inv by (simp_all add: grid_inv_def)
  note g = get_danger_at_in_grid[OF ok x y s]
  define k where "k = nat (seconds + int look_behind)"
  have "squares_wide (danger_space dg ! k) = squares_wide set_up"
    "squares_high (danger_space dg ! k) = squares_high set_up"
    using ok g(1) by (simp_all add: space_ok_def k_def)
  then have "0 \<le> danger_of (danger_space dg ! k) x y"
    using nn g(1,2,3) by (simp add: space_nonneg_def k_def)
  then show ?thesis using g(4) by (simp add: k_def)
qed

theorem fresh_grid_nonnegative_witness:
  "danger_grid_ctor [parked_plane] 2 1 1 0
     = Some (strip_grid [parked_plane] ((\<lambda>k. 0)(look_behind := sqrt 5 * (5 / 2))) (\<lambda>k. 0))
   \<and> get_danger_at (strip_grid [parked_plane] ((\<lambda>k. 0)(look_behind := sqrt 5 * (5 / 2))) (\<lambda>k. 0)) 0 0 0
       = Some (sqrt 5 * (5 / 2))
   \<and> 0 \<le> sqrt 5 * (5 / 2 :: real)"
proof -
  define dg where "dg = strip_grid [parked_plane] ((\<lambda>k. 0)(look_behind := sqrt 5 * (5 / 2))) (\<lambda>k. 0)"
  have c: "danger_grid_ctor [parked_plane] 2 1 1 0 = Some dg"
    unfolding dg_def by (rule ctor_parked)
  have x: "0 < dg_get_width_in_squares dg" and y: "0 < dg_get_height_in_squares dg"
    by (simp_all add: dg_def strip_grid_dims)
  have s: "- int look_behind \<le> 0" "(0::int) \<le> int look_ahead" by simp_all
  have g: "get_danger_at dg 0 0 0 = Some (sqrt 5 * (5 / 2))"
    unfolding dg_def
    by (subst get_strip_grid) (simp_all add: slice_index_small slice_count_def look_behind_def)
  from fresh_grid_nonnegative[OF c x y s] g
  have "0 \<le> sqrt 5 * (5 / 2 :: real)" by auto
  then show ?thesis using c g unfolding dg_def by blast
qed

subsection \<open>C8\<close>

text \<open>
  C8 says that the grid has \<open>ceil(field_width / resolution)\<close> by
  \<open>ceil(field_height / resolution)\<close> squares. \<open>map::map\<close> converts the quotient to
  \<open>unsigned int\<close>, which cuts it down (the source asks in a note whether it is ``a
  problem that this rounds down''), while \<open>map_tools::find_width_in_squares\<close> and
  \<open>find_height_in_squares\<close>, which the constructor of the danger grid calls on the same
  field, round up: a field of 10.5 by 10.5 at resolution 1 gets 10 by 10 squares from
  the one and 11 by 11 from the other.
\<close>

theorem map_ctor_rounds_down:
  "map_ctor (21 / 2) (21 / 2) 1 \<noteq> None
   \<and> squares_wide (the (map_ctor (21 / 2) (21 / 2) 1)) = 10
   \<and> squares_high (the (map_ctor (21 / 2) (21 / 2) 1)) = 10
   \<and> \<lceil>(21 / 2 :: real) / 1\<rceil> = 11
   \<and> find_width_in_squares (21 / 2) (21 / 2) 1 = 11
   \<and> find_height_in_squares (21 / 2) (21 / 2) 1 = 11"
  by (simp add: map_ctor_def EPSILON_def c_trunc_def Let_def find_width_in_squares_def
      find_height_in_squares_def c_unsigned_def)

subsection \<open>C9\<close>

text \<open>
  C9 says that after \<open>calculate_distance_costs\<close> every slice holds
  \<open>danger_adjust * risk + distance\<close> wherever the risk was above the threshold. The
  loop over the slices runs while \<open>crnt_t < look_ahead\<close>, an index and not a second, so
  the last \<open>look_behind + 1\<close> slices keep the bare distance. On a grid of two squares side by side, with
  danger 1 added to the square \<open>(0, 0)\<close> at seconds 17 and 20 and the goal on that square, the call with
  \<open>danger_adjust = 2\<close> leaves 2 at second 17 and 0 at second 20.
\<close>

theorem calculate_distance_costs_skips_last_slices:
  "\<exists>dgA dgB dgC dgD.
      danger_grid_ctor [] 2 1 1 0 = Some dgA
    \<and> add_danger_at dgA 0 0 17 1 = Some dgB
    \<and> add_danger_at dgB 0 0 20 1 = Some dgC
    \<and> get_danger_at dgC 0 0 17 = Some 1
    \<and> get_danger_at dgC 0 0 20 = Some 1
    \<and> calculate_distance_costs 0 0 2 dgC = Some dgD
    \<and> get_dist_cost_at dgD 0 0 = Some 0
    \<and> get_danger_at dgD 0 0 17 = Some 2
    \<and> get_danger_at dgD 0 0 20 = Some 0"
proof -
  define fC where "fC = ((\<lambda>k::nat. 0::real)(19 := 1))(22 := 1)"
  define fD where "fD = (\<lambda>k. if k < look_ahead \<and> fC k > EPSILON then 2 * fC k + 0 else 0)"
  define gD where "gD = (\<lambda>k::nat. if k < look_ahead \<and> (0::real) > EPSILON then 2 * 0 + 1 else (1::real))"
  have i: "slice_index 17 < slice_count" "slice_index 20 < slice_count"
    by (simp_all add: slice_index_17 slice_index_20 slice_count_def look_ahead_def look_behind_def)
  have a: "danger_grid_ctor [] 2 1 1 0 = Some (strip_grid [] (\<lambda>k. 0) (\<lambda>k. 0))" by (rule ctor_strip)
  have b: "add_danger_at (strip_grid [] (\<lambda>k. 0) (\<lambda>k. 0)) 0 0 17 1 = Some (strip_grid [] ((\<lambda>k. 0)(19 := 1)) (\<lambda>k. 0))"
    using add_strip[OF i(1), where ps="[]" and f="\<lambda>k. 0" and g="\<lambda>k. 0" and v=1] by (simp add: slice_index_17)
  have c: "add_danger_at (strip_grid [] ((\<lambda>k. 0)(19 := 1)) (\<lambda>k. 0)) 0 0 20 1 = Some (strip_grid [] fC (\<lambda>k. 0))"
    using add_strip[OF i(2), where ps="[]" and f="(\<lambda>k. 0)(19 := 1)" and g="\<lambda>k. 0" and v=1] by (simp add: slice_index_20 fC_def)
  have g1: "get_danger_at (strip_grid [] fC (\<lambda>k. 0)) 0 0 17 = Some 1" "get_danger_at (strip_grid [] fC (\<lambda>k. 0)) 0 0 20 = Some 1"
    using get_strip[OF i(1), where dg="strip_grid [] fC (\<lambda>k. 0)" and f=fC and g="\<lambda>k. 0"]
      get_strip[OF i(2), where dg="strip_grid [] fC (\<lambda>k. 0)" and f=fC and g="\<lambda>k. 0"]
    by (simp_all add: strip_grid_def slice_index_17 slice_index_20 fC_def)
  define dgD where "dgD = (strip_grid [] fC (\<lambda>k. 0))\<lparr>dist_map := Some (strip_map 0 1), distance_costs_initialized := True,
          danger_space := strip_space fD gD\<rparr>"
  have d: "calculate_distance_costs 0 0 2 (strip_grid [] fC (\<lambda>k. 0)) = Some dgD"
    unfolding dgD_def fD_def gD_def by (rule distance_costs_strip)
  have e: "get_dist_cost_at dgD 0 0 = Some 0"
    by (simp add: get_dist_cost_at_def dgD_def strip_get)
  have g2: "get_danger_at dgD 0 0 17 = Some 2" "get_danger_at dgD 0 0 20 = Some 0"
    using get_strip[OF i(1), where dg="(strip_grid [] fC (\<lambda>k. 0))\<lparr>dist_map := Some (strip_map 0 1), distance_costs_initialized := True\<rparr>" and f=fD and g=gD]
      get_strip[OF i(2), where dg="(strip_grid [] fC (\<lambda>k. 0))\<lparr>dist_map := Some (strip_map 0 1), distance_costs_initialized := True\<rparr>" and f=fD and g=gD]
    by (simp_all add: dgD_def slice_index_17 slice_index_20 fD_def fC_def look_ahead_def EPSILON_def)
  show ?thesis using a b c g1 d e g2 by blast
qed

subsection \<open>C10\<close>

text \<open>
  C10: on a danger grid as the constructor leaves it, every slice of the past is zero:
  \<open>get_danger_at\<close> returns 0 for every square of the grid and every second from
  \<open>-look_behind\<close> to \<open>-1\<close>.
\<close>

theorem fresh_grid_past_slices_zero:
  assumes c: "danger_grid_ctor fleet w h res plane_id = Some dg"
    and x: "x < dg_get_width_in_squares dg" and y: "y < dg_get_height_in_squares dg"
    and s: "- int look_behind \<le> seconds" "seconds \<le> - 1"
  shows "get_danger_at dg x y seconds = Some 0"
proof -
  obtain set_up where m: "map_ctor w h res = Some set_up"
    and inv: "grid_inv dg (squares_wide set_up) (squares_high set_up)"
    and past: "\<forall>s < look_behind. danger_space dg ! s = set_up"
    using c by (rule danger_grid_ctor_inv)
  have ok: "space_ok (danger_space dg) (squares_wide set_up) (squares_high set_up)"
    using inv by (simp add: grid_inv_def)
  have s2: "seconds \<le> int look_ahead" using s(2) by simp
  note g = get_danger_at_in_grid[OF ok x y s(1) s2]
  have "nat (seconds + int look_behind) < look_behind" using s by simp
  then have "danger_space dg ! nat (seconds + int look_behind) = set_up" using past by simp
  then show ?thesis using g(2,3,4) map_ctor_Some(2)[OF m] by simp
qed

theorem fresh_grid_past_slices_zero_witness:
  "danger_grid_ctor [parked_plane] 2 1 1 0
     = Some (strip_grid [parked_plane] ((\<lambda>k. 0)(look_behind := sqrt 5 * (5 / 2))) (\<lambda>k. 0))
   \<and> get_danger_at (strip_grid [parked_plane] ((\<lambda>k. 0)(look_behind := sqrt 5 * (5 / 2))) (\<lambda>k. 0)) 0 0 (- 1)
       = Some 0
   \<and> get_danger_at (strip_grid [parked_plane] ((\<lambda>k. 0)(look_behind := sqrt 5 * (5 / 2))) (\<lambda>k. 0)) 0 0 (- 2)
       = Some 0"
proof -
  define dg where "dg = strip_grid [parked_plane] ((\<lambda>k. 0)(look_behind := sqrt 5 * (5 / 2))) (\<lambda>k. 0)"
  have c: "danger_grid_ctor [parked_plane] 2 1 1 0 = Some dg"
    unfolding dg_def by (rule ctor_parked)
  have x: "0 < dg_get_width_in_squares dg" and y: "0 < dg_get_height_in_squares dg"
    by (simp_all add: dg_def strip_grid_dims)
  have s1: "- int look_behind \<le> - 1" "(- 1 :: int) \<le> - 1" by (simp_all add: look_behind_def)
  have s2: "- int look_behind \<le> - 2" "(- 2 :: int) \<le> - 1" by (simp_all add: look_behind_def)
  show ?thesis
    using c fresh_grid_past_slices_zero[OF c x y s1] fresh_grid_past_slices_zero[OF c x y s2]
    unfolding dg_def by blast
qed

end
